theory Spec2Isabelle
  imports Main "HOL-Library.Multiset"
begin

section \<open>JavaScript values as the feed parser produces them\<close>

text \<open>
  The program (\<^verbatim>\<open>telegram_news_bot.js\<close>) works on the untyped tree that
  \<^verbatim>\<open>XMLParser.parse\<close> returns: text nodes are strings, numeric-looking text becomes a
  number, \<^verbatim>\<open>true\<close>/\<^verbatim>\<open>false\<close> text becomes a boolean, an element with children or
  attributes is an object, a repeated element is an array. A missing property reads as
  \<^verbatim>\<open>undefined\<close>.

  A \<open>string\<close> stands for a JavaScript string, one \<open>char\<close> for each UTF-16 code unit.
  \<open>JNum n\<close> is a finite number; the program only ever tests a number for being zero and
  passes it on, so integers stand for all of them. \<open>JNaN\<close> is the one number that is
  falsy without being zero. \<open>JFun name\<close> is a built-in function object with that
  \<^verbatim>\<open>name\<close>, which the program can meet when it reads a property of a string
  primitive (see \<open>lookup_prop\<close>).
\<close>

datatype jsval =
    JUndefined
  | JNull
  | JBool bool
  | JNum int
  | JNaN
  | JStr string
  | JObj "(string \<times> jsval) list"
  | JArr "jsval list"
  | JFun string

datatype js_error =
    HttpError int string
  | TransportError string
  | ParseError string
  | TypeError string

text \<open>ToBoolean, as used by \<^verbatim>\<open>||\<close> and \<^verbatim>\<open>if\<close>.\<close>

fun truthy :: "jsval \<Rightarrow> bool" where
  "truthy JUndefined = False"
| "truthy JNull = False"
| "truthy (JBool b) = b"
| "truthy (JNum n) = (n \<noteq> 0)"
| "truthy JNaN = False"
| "truthy (JStr s) = (s \<noteq> [])"
| "truthy (JObj kvs) = True"
| "truthy (JArr xs) = True"
| "truthy (JFun f) = True"

fun nullish :: "jsval \<Rightarrow> bool" where
  "nullish JUndefined = True"
| "nullish JNull = True"
| "nullish v = False"

fun is_string :: "jsval \<Rightarrow> bool" where
  "is_string (JStr s) = True"
| "is_string v = False"

fun isArray :: "jsval \<Rightarrow> bool" where
  "isArray (JArr xs) = True"
| "isArray v = False"

text \<open>
  Reading a property of a value that is neither \<^verbatim>\<open>undefined\<close> nor \<^verbatim>\<open>null\<close>.
  The program reads only the names \<^verbatim>\<open>rss channel item feed entry title #text link @_href
  pubDate published description summary dc:creator author name\<close>. An object answers with its
  own property (\<^verbatim>\<open>Object.prototype\<close> has none of these names). A primitive is boxed and
  answers from its prototype: of the names above only \<^verbatim>\<open>link\<close> exists there, as the
  method \<^verbatim>\<open>String.prototype.link\<close>. A function has a \<^verbatim>\<open>name\<close>. Arrays, numbers
  and booleans have none of the names.
\<close>

fun lookup_prop :: "jsval \<Rightarrow> string \<Rightarrow> jsval" where
  "lookup_prop (JObj kvs) k = (case map_of kvs k of Some v \<Rightarrow> v | None \<Rightarrow> JUndefined)"
| "lookup_prop (JStr s) k = (if k = ''link'' then JFun ''link'' else JUndefined)"
| "lookup_prop (JFun name) k = (if k = ''name'' then JStr name else JUndefined)"
| "lookup_prop v k = JUndefined"

text \<open>\<^verbatim>\<open>v.k\<close>: a TypeError on \<^verbatim>\<open>undefined\<close> and \<^verbatim>\<open>null\<close>.\<close>

definition get_prop :: "jsval \<Rightarrow> string \<Rightarrow> js_error + jsval" where
  "get_prop v k =
     (if nullish v then Inl (TypeError ''Cannot read properties of undefined or null'')
      else Inr (lookup_prop v k))"

text \<open>\<^verbatim>\<open>v?.k\<close> and \<^verbatim>\<open>v?.[k]\<close>: \<^verbatim>\<open>undefined\<close> on \<^verbatim>\<open>undefined\<close> and \<^verbatim>\<open>null\<close>.\<close>

definition opt_prop :: "jsval \<Rightarrow> string \<Rightarrow> jsval" where
  "opt_prop v k = (if nullish v then JUndefined else lookup_prop v k)"

text \<open>\<^verbatim>\<open>a || b\<close> for operands that are already evaluated (reads that cannot throw).\<close>

definition js_or :: "jsval \<Rightarrow> jsval \<Rightarrow> jsval" where
  "js_or a b = (if truthy a then a else b)"

section \<open>The fetcher\<close>

text \<open>
  \<^verbatim>\<open>httpsRequest(url, options)\<close> returns a promise that only two listeners settle:
  \<^verbatim>\<open>'error'\<close> on the request rejects it, \<^verbatim>\<open>'end'\<close> on the response resolves or rejects
  it by the status code. One exchange takes one of three courses:
  \<^item> the request emits \<^verbatim>\<open>'error'\<close> (or cannot be made at all) before any response;
  \<^item> a response with a \<^verbatim>\<open>statusCode\<close> arrives, delivers the body in chunks
    (\<^verbatim>\<open>data += chunk\<close>) and emits \<^verbatim>\<open>'end'\<close>;
  \<^item> a response with a \<^verbatim>\<open>statusCode\<close> arrives, delivers some chunks, and the connection
    closes before \<^verbatim>\<open>'end'\<close>. The runtime then reports the failure on the response, on
    which the function has no listener, and not on the request.
  In the third course no listener ever runs again and the promise stays pending: the
  value \<open>None\<close>. A rejected promise is \<open>Some (Inl e)\<close>, a resolved one \<open>Some (Inr data)\<close>.
  The aggregator calls with empty options, so no body is written.
\<close>

datatype exchange =
    RequestError string
  | ResponseEnd int "string list"
  | ResponseAborted int "string list"

definition httpsRequest :: "exchange \<Rightarrow> (js_error + string) option" where
  "httpsRequest x =
     (case x of
        RequestError e \<Rightarrow> Some (Inl (TransportError e))
      | ResponseEnd statusCode chunks \<Rightarrow>
          (let data = foldl (\<lambda>data chunk. data @ chunk) [] chunks
           in if statusCode \<ge> 200 \<and> statusCode < 300 then Some (Inr data)
              else Some (Inl (HttpError statusCode data)))
      | ResponseAborted statusCode chunks \<Rightarrow> None)"

section \<open>The normalizer\<close>

text \<open>
  \<^verbatim>\<open>s.replace(/<[^>]*>/g, '')\<close>. At a position the pattern matches when the character
  is \<^verbatim>\<open><\<close> and a \<^verbatim>\<open>>\<close> follows somewhere; the greedy class stops at the first
  \<^verbatim>\<open>>\<close>, and backtracking cannot help, because the class never consumes a \<^verbatim>\<open>>\<close>.
  \<open>match_tag\<close> returns what is left after the match. The global replace scans from the
  left: a match is dropped and the scan goes on behind it, otherwise the character is
  kept.
\<close>

fun match_tag :: "string \<Rightarrow> string option" where
  "match_tag [] = None"
| "match_tag (c # cs) =
     (if c = CHR ''<'' \<and> CHR ''>'' \<in> set cs
      then Some (tl (dropWhile (\<lambda>d. d \<noteq> CHR ''>'') cs))
      else None)"

lemma match_tag_shorter: "match_tag s = Some rest \<Longrightarrow> length rest < length s"
proof (cases s)
  case Nil
  assume "match_tag s = Some rest"
  with Nil show ?thesis by simp
next
  case (Cons c cs)
  assume "match_tag s = Some rest"
  with Cons have rest: "rest = tl (dropWhile (\<lambda>d. d \<noteq> CHR ''>'') cs)"
    by (simp split: if_splits)
  have "length (dropWhile (\<lambda>d. d \<noteq> CHR ''>'') cs) \<le> length cs"
    by (rule length_dropWhile_le)
  then have "length rest \<le> length cs"
    unfolding rest by simp
  with Cons show ?thesis by simp
qed

function strip_tags :: "string \<Rightarrow> string" where
  "strip_tags [] = []"
| "strip_tags (c # cs) =
     (case match_tag (c # cs) of
        Some rest \<Rightarrow> strip_tags rest
      | None \<Rightarrow> c # strip_tags cs)"
  by pat_completeness auto
termination
  by (relation "measure length") (auto simp del: match_tag.simps dest: match_tag_shorter)

text \<open>A \<^verbatim>\<open><...>\<close> span: the pattern \<^verbatim>\<open><[^>]*>\<close> matches somewhere in the string.\<close>

fun has_tag_span :: "string \<Rightarrow> bool" where
  "has_tag_span [] = False"
| "has_tag_span (c # cs) = (match_tag (c # cs) \<noteq> None \<or> has_tag_span cs)"

text \<open>\<^verbatim>\<open>s.substring(0, 120)\<close>.\<close>

definition substring_0_120 :: "string \<Rightarrow> string" where
  "substring_0_120 s = take 120 s"

text \<open>
  \<^verbatim>\<open>c.replace(/<[^>]*>/g, '').substring(0, 120)\<close>, where \<open>c\<close> is the value of
  \<^verbatim>\<open>item.description || item.summary || ''\<close>. Only a string has the method
  \<^verbatim>\<open>replace\<close>; on any other value the call throws a TypeError (an object can own a
  property of that name, but the parser never makes it a function).
\<close>

definition snippet_of :: "jsval \<Rightarrow> js_error + jsval" where
  "snippet_of c =
     (case c of
        JStr s \<Rightarrow> Inr (JStr (substring_0_120 (strip_tags s)))
      | _ \<Rightarrow> Inl (TypeError ''replace is not a function''))"

record news_item =
  title :: jsval
  link :: jsval
  pubDate :: jsval
  content :: jsval
  contentSnippet :: jsval
  creator :: jsval

text \<open>
  The arrow function of \<^verbatim>\<open>items.map\<close> (lines 64 to 71). \<open>now\<close> is what
  \<^verbatim>\<open>new Date().toISOString()\<close> returns when line 67 gets to evaluate it. The first
  read, \<^verbatim>\<open>item.title\<close>, throws when the item is \<^verbatim>\<open>undefined\<close> or \<^verbatim>\<open>null\<close>; after it
  no read can throw.
\<close>

definition normalize :: "string \<Rightarrow> jsval \<Rightarrow> js_error + news_item" where
  "normalize now item =
     (case get_prop item ''title'' of
        Inl e \<Rightarrow> Inl e
      | Inr item_title \<Rightarrow>
          (let item_link = lookup_prop item ''link'';
               c = js_or (lookup_prop item ''description'')
                     (js_or (lookup_prop item ''summary'') (JStr ''''))
           in case snippet_of c of
                Inl e \<Rightarrow> Inl e
              | Inr snippet \<Rightarrow>
                  Inr \<lparr> title = js_or item_title
                                 (js_or (opt_prop item_title ''#text'') (JStr ''No title'')),
                        link = js_or item_link
                                 (js_or (opt_prop item_link ''@_href'') (JStr '''')),
                        pubDate = js_or (lookup_prop item ''pubDate'')
                                 (js_or (lookup_prop item ''published'') (JStr now)),
                        content = c,
                        contentSnippet = snippet,
                        creator = js_or (lookup_prop item ''dc:creator'')
                                 (js_or (opt_prop (lookup_prop item ''author'') ''name'')
                                    (JStr ''Unknown'')) \<rparr>))"

text \<open>
  Line 67 evaluates \<^verbatim>\<open>new Date()\<close>, and so reads the clock, exactly when both date
  fields of the node are falsy. The fields of the object literal are evaluated in order,
  so this read comes before the call of \<^verbatim>\<open>replace\<close> on line 69 can throw, and after the
  read of \<^verbatim>\<open>item.title\<close> has thrown for a node that is \<^verbatim>\<open>undefined\<close> or \<^verbatim>\<open>null\<close>.
\<close>

definition reads_clock :: "jsval \<Rightarrow> bool" where
  "reads_clock item =
     (\<not> nullish item \<and> \<not> truthy (lookup_prop item ''pubDate'') \<and>
      \<not> truthy (lookup_prop item ''published''))"

section \<open>The aggregator\<close>

text \<open>
  Lines 52 to 61: which nodes of a parsed document are the items. \<^verbatim>\<open>parsed.rss\<close> is a
  plain read (the parser always returns an object; the read would throw on
  \<^verbatim>\<open>undefined\<close>), the rest of both chains is optional. \<open>as_array\<close> is
  \<^verbatim>\<open>Array.isArray(x) ? x : [x]\<close>.
\<close>

fun as_array :: "jsval \<Rightarrow> jsval list" where
  "as_array (JArr xs) = xs"
| "as_array v = [v]"

definition rss_item :: "jsval \<Rightarrow> jsval" where
  "rss_item parsed = opt_prop (opt_prop (lookup_prop parsed ''rss'') ''channel'') ''item''"

definition feed_entry :: "jsval \<Rightarrow> jsval" where
  "feed_entry parsed = opt_prop (lookup_prop parsed ''feed'') ''entry''"

definition select_items :: "jsval \<Rightarrow> js_error + jsval list" where
  "select_items parsed =
     (case get_prop parsed ''rss'' of
        Inl e \<Rightarrow> Inl e
      | Inr rss \<Rightarrow>
          if truthy (rss_item parsed) then Inr (as_array (rss_item parsed))
          else if truthy (feed_entry parsed) then Inr (as_array (feed_entry parsed))
          else Inr [])"

text \<open>
  \<^verbatim>\<open>items.map(item => ...)\<close>: the first item whose callback throws ends the map. The
  clock is a sequence of readings, \<open>clock k\<close> being what the \<open>k\<close>-th evaluation of
  \<^verbatim>\<open>new Date().toISOString()\<close> in the run returns. The number of readings taken so far
  is passed along and returned, also when the map ends with a throw.
\<close>

fun map_normalize ::
  "(nat \<Rightarrow> string) \<Rightarrow> nat \<Rightarrow> jsval list \<Rightarrow> (js_error + news_item list) \<times> nat" where
  "map_normalize clock k [] = (Inr [], k)"
| "map_normalize clock k (item # items) =
     (case normalize (clock k) item of
        Inl e \<Rightarrow> (Inl e, if reads_clock item then Suc k else k)
      | Inr n \<Rightarrow>
          (case map_normalize clock (if reads_clock item then Suc k else k) items of
             (Inl e, k') \<Rightarrow> (Inl e, k')
           | (Inr ns, k') \<Rightarrow> (Inr (n # ns), k')))"

text \<open>
  \<^verbatim>\<open>(a, b) => new Date(b.pubDate) - new Date(a.pubDate)\<close>. The difference of two
  time values is \<^verbatim>\<open>NaN\<close> (\<open>None\<close>) as soon as one of them is.
\<close>

definition date_minus :: "int option \<Rightarrow> int option \<Rightarrow> int option" where
  "date_minus x y =
     (case x of None \<Rightarrow> None | Some m \<Rightarrow> (case y of None \<Rightarrow> None | Some n \<Rightarrow> Some (m - n)))"

definition newest_first :: "(jsval \<Rightarrow> int option) \<Rightarrow> news_item \<Rightarrow> news_item \<Rightarrow> int option" where
  "newest_first dt a b = date_minus (dt (pubDate b)) (dt (pubDate a))"

text \<open>
  \<^verbatim>\<open>Array.prototype.sort(comparefn)\<close>, as the language defines it. The comparator is
  consistent on the values of the array when it never returns \<^verbatim>\<open>NaN\<close> on them and the
  relations it induces are reflexive, symmetric and transitive as below. For a
  consistent comparator the language fixes the result: the values in ascending order
  of the comparator, equal ones in their order in the array. \<open>stable_sort\<close> computes
  that result by insertion: an element goes in front of the first one it does not have
  to follow. For any other comparator the order is left to the engine, which is a
  parameter here.
\<close>

definition sort_compare :: "('a \<Rightarrow> 'a \<Rightarrow> int option) \<Rightarrow> 'a \<Rightarrow> 'a \<Rightarrow> int" where
  "sort_compare comparefn x y = (case comparefn x y of None \<Rightarrow> 0 | Some v \<Rightarrow> v)"

definition consistent_at :: "('a \<Rightarrow> 'a \<Rightarrow> int option) \<Rightarrow> 'a \<Rightarrow> 'a \<Rightarrow> 'a \<Rightarrow> bool" where
  "consistent_at comparefn a b c =
     (comparefn a b \<noteq> None \<and>
      sort_compare comparefn a a = 0 \<and>
      (sort_compare comparefn a b = 0 \<longrightarrow> sort_compare comparefn b a = 0) \<and>
      (sort_compare comparefn a b = 0 \<and> sort_compare comparefn b c = 0 \<longrightarrow>
         sort_compare comparefn a c = 0) \<and>
      (sort_compare comparefn a b < 0 \<and> sort_compare comparefn b c < 0 \<longrightarrow>
         sort_compare comparefn a c < 0) \<and>
      (sort_compare comparefn a b > 0 \<and> sort_compare comparefn b c > 0 \<longrightarrow>
         sort_compare comparefn a c > 0))"

definition consistent :: "('a \<Rightarrow> 'a \<Rightarrow> int option) \<Rightarrow> 'a list \<Rightarrow> bool" where
  "consistent comparefn xs =
     list_all (\<lambda>a. list_all (\<lambda>b. list_all (\<lambda>c. consistent_at comparefn a b c) xs) xs) xs"

fun place :: "('a \<Rightarrow> 'a \<Rightarrow> int option) \<Rightarrow> 'a \<Rightarrow> 'a list \<Rightarrow> 'a list" where
  "place comparefn x [] = [x]"
| "place comparefn x (y # ys) =
     (if sort_compare comparefn x y \<le> 0 then x # y # ys else y # place comparefn x ys)"

fun stable_sort :: "('a \<Rightarrow> 'a \<Rightarrow> int option) \<Rightarrow> 'a list \<Rightarrow> 'a list" where
  "stable_sort comparefn [] = []"
| "stable_sort comparefn (x # xs) = place comparefn x (stable_sort comparefn xs)"

definition array_sort ::
  "(('a \<Rightarrow> 'a \<Rightarrow> int option) \<Rightarrow> 'a list \<Rightarrow> 'a list) \<Rightarrow>
   ('a \<Rightarrow> 'a \<Rightarrow> int option) \<Rightarrow> 'a list \<Rightarrow> 'a list" where
  "array_sort engine comparefn xs =
     (if consistent comparefn xs then stable_sort comparefn xs else engine comparefn xs)"

text \<open>
  What the program cannot decide by itself is a parameter: how the network answers a
  URL, what \<^verbatim>\<open>XMLParser.parse\<close> makes of a body (it may throw), the readings of the
  clock, the time value of \<^verbatim>\<open>new Date(v)\<close> (\<open>None\<close> is \<^verbatim>\<open>NaN\<close>, an invalid date), the
  order the engine gives an array under an inconsistent comparator, and the two remote
  services the orchestrator calls, each of which answers, fails, or never answers.
\<close>

record world =
  net :: "string \<Rightarrow> exchange"
  xml_parse :: "string \<Rightarrow> js_error + jsval"
  clock :: "nat \<Rightarrow> string"
  date_time :: "jsval \<Rightarrow> int option"
  engine_sort :: "(news_item \<Rightarrow> news_item \<Rightarrow> int option) \<Rightarrow> news_item list \<Rightarrow> news_item list"
  openai :: "news_item list \<Rightarrow> (js_error + jsval) option"
  telegram :: "jsval \<Rightarrow> (js_error + jsval) option"

record config =
  rssFeeds :: "string list"

definition CONFIG :: config where
  "CONFIG = \<lparr> rssFeeds =
     [''https://rss.nytimes.com/services/xml/rss/nyt/Economy.xml'',
      ''https://www.thenation.com/subject/politics/feed/'',
      ''https://moxie.foxnews.com/google-publisher/politics.xml''] \<rparr>"

text \<open>
  The body of the \<^verbatim>\<open>try\<close> block for one feed, up to the value of \<^verbatim>\<open>normalizedItems\<close>,
  started when \<open>k\<close> clock readings have been taken. \<open>None\<close>: the \<^verbatim>\<open>await\<close> on line 49
  never comes back.
\<close>

definition try_feed ::
  "world \<Rightarrow> nat \<Rightarrow> string \<Rightarrow> ((js_error + news_item list) \<times> nat) option" where
  "try_feed w k feedUrl =
     (case httpsRequest (net w feedUrl) of
        None \<Rightarrow> None
      | Some (Inl e) \<Rightarrow> Some (Inl e, k)
      | Some (Inr xmlData) \<Rightarrow>
          (case xml_parse w xmlData of
             Inl e \<Rightarrow> Some (Inl e, k)
           | Inr parsed \<Rightarrow>
               (case select_items parsed of
                  Inl e \<Rightarrow> Some (Inl e, k)
                | Inr items \<Rightarrow> Some (map_normalize (clock w) k items))))"

text \<open>
  The \<^verbatim>\<open>for\<close> loop with its \<^verbatim>\<open>try\<close>/\<^verbatim>\<open>catch\<close>: a feed that got through pushes its
  items onto \<^verbatim>\<open>allItems\<close>; the handler only logs, and the loop goes on. A feed whose
  request never settles stops the loop for good.
\<close>

fun feed_loop ::
  "world \<Rightarrow> nat \<Rightarrow> string list \<Rightarrow> news_item list \<Rightarrow> (news_item list \<times> nat) option" where
  "feed_loop w k [] allItems = Some (allItems, k)"
| "feed_loop w k (feedUrl # feeds) allItems =
     (case try_feed w k feedUrl of
        None \<Rightarrow> None
      | Some (Inr normalizedItems, k') \<Rightarrow> feed_loop w k' feeds (allItems @ normalizedItems)
      | Some (Inl error, k') \<Rightarrow> feed_loop w k' feeds allItems)"

definition fetchRSSFeeds :: "world \<Rightarrow> config \<Rightarrow> news_item list option" where
  "fetchRSSFeeds w cfg =
     (case feed_loop w 0 (rssFeeds cfg) [] of
        None \<Rightarrow> None
      | Some (allItems, k) \<Rightarrow>
          Some (array_sort (engine_sort w) (newest_first (date_time w)) allItems))"

text \<open>
  The time value of an item, and \<^verbatim>\<open>>=\<close> on time values: a comparison with \<^verbatim>\<open>NaN\<close>
  is false.
\<close>

definition timestamp :: "world \<Rightarrow> news_item \<Rightarrow> int option" where
  "timestamp w n = date_time w (pubDate n)"

definition time_ge :: "int option \<Rightarrow> int option \<Rightarrow> bool" where
  "time_ge x y =
     (case x of None \<Rightarrow> False | Some m \<Rightarrow> (case y of None \<Rightarrow> False | Some n \<Rightarrow> m \<ge> n))"

section \<open>The orchestrator\<close>

text \<open>
  \<^verbatim>\<open>main\<close> is observed through the calls it makes to the two remote services and
  through how it ends: it returns, the handler calls \<^verbatim>\<open>process.exit(1)\<close>, or an
  \<^verbatim>\<open>await\<close> never comes back and \<^verbatim>\<open>main\<close> stays pending. \<^verbatim>\<open>processWithAI\<close> and
  \<^verbatim>\<open>sendToTelegram\<close> rethrow whatever fails inside them.
\<close>

datatype call = ProcessWithAI "news_item list" | SendToTelegram jsval

datatype ending = Returned | Exit int | Pending

definition main :: "world \<Rightarrow> config \<Rightarrow> call list \<times> ending" where
  "main w cfg =
     (case fetchRSSFeeds w cfg of
        None \<Rightarrow> ([], Pending)
      | Some newsData \<Rightarrow>
          if length newsData = 0 then ([], Returned)
          else
            (case openai w (take 20 newsData) of
               None \<Rightarrow> ([ProcessWithAI (take 20 newsData)], Pending)
             | Some (Inl error) \<Rightarrow> ([ProcessWithAI (take 20 newsData)], Exit 1)
             | Some (Inr processedMessage) \<Rightarrow>
                 (case telegram w processedMessage of
                    None \<Rightarrow>
                      ([ProcessWithAI (take 20 newsData), SendToTelegram processedMessage],
                       Pending)
                  | Some (Inl error) \<Rightarrow>
                      ([ProcessWithAI (take 20 newsData), SendToTelegram processedMessage],
                       Exit 1)
                  | Some (Inr sent) \<Rightarrow>
                      ([ProcessWithAI (take 20 newsData), SendToTelegram processedMessage],
                       Returned))))"

section \<open>A sample world\<close>

text \<open>
  Seven feeds for the worked examples.
  \<^item> Feed one is an item-dialect document with two items, sent in two chunks.
  \<^item> Feed two answers with status 500.
  \<^item> Feed three is an entry-dialect document with a single entry.
  \<^item> Feed four is an item-dialect document whose first item has the publication date
    \<^verbatim>\<open>soon\<close>.
  \<^item> Feed five sends a body with a comment that is never closed, for which the parser
    throws \<^verbatim>\<open>Comment is not closed.\<close>
  \<^item> Feed six answers with status 200 and loses the connection in the middle of the body.
  \<^item> Feed seven is an item-dialect document with two items, the second of which has the
    description 42, which the parser turns into a number.
  Any other URL does not resolve. \<open>sample_parse\<close> is a table for the bodies that the
  sample network sends: the parsed documents are what the parser, configured as in lines
  39 to 42, makes of them. No example applies it to another body. The sample clock has
  two readings. The sample date knows the three instants that occur in the feeds, in
  milliseconds since the epoch; every other value is an invalid date for it, as
  \<^verbatim>\<open>new Date('soon')\<close> is in the engine. The sample engine is a stand-in that leaves an
  array as it is; only feed four, with two items, gets to it. Both remote services answer.
\<close>

definition body_one :: string where
  "body_one = ''<rss><channel><item><title>A</title><pubDate>1970-01-01T00:00:01.000Z</pubDate></item><item><title>B</title><pubDate>1970-01-01T00:00:03.000Z</pubDate></item></channel></rss>''"

definition doc_one :: jsval where
  "doc_one =
     JObj [(''rss'', JObj [(''channel'', JObj [(''item'',
       JArr [JObj [(''title'', JStr ''A''), (''pubDate'', JStr ''1970-01-01T00:00:01.000Z'')],
             JObj [(''title'', JStr ''B''), (''pubDate'', JStr ''1970-01-01T00:00:03.000Z'')]])])])]"

definition body_three :: string where
  "body_three = ''<feed><entry><title>C</title><published>1970-01-01T00:00:02.000Z</published></entry></feed>''"

definition doc_three :: jsval where
  "doc_three =
     JObj [(''feed'', JObj [(''entry'',
       JObj [(''title'', JStr ''C''), (''published'', JStr ''1970-01-01T00:00:02.000Z'')])])]"

definition body_four :: string where
  "body_four = ''<rss><channel><item><title>D</title><pubDate>soon</pubDate></item><item><title>E</title><pubDate>1970-01-01T00:00:01.000Z</pubDate></item></channel></rss>''"

definition doc_four :: jsval where
  "doc_four =
     JObj [(''rss'', JObj [(''channel'', JObj [(''item'',
       JArr [JObj [(''title'', JStr ''D''), (''pubDate'', JStr ''soon'')],
             JObj [(''title'', JStr ''E''), (''pubDate'', JStr ''1970-01-01T00:00:01.000Z'')]])])])]"

definition body_five :: string where
  "body_five = ''<rss><channel><!-- no end''"

definition body_seven :: string where
  "body_seven = ''<rss><channel><item><title>F</title><pubDate>1970-01-01T00:00:02.000Z</pubDate></item><item><title>G</title><description>42</description></item></channel></rss>''"

definition doc_seven :: jsval where
  "doc_seven =
     JObj [(''rss'', JObj [(''channel'', JObj [(''item'',
       JArr [JObj [(''title'', JStr ''F''), (''pubDate'', JStr ''1970-01-01T00:00:02.000Z'')],
             JObj [(''title'', JStr ''G''), (''description'', JNum 42)]])])])]"

definition sample_net :: "string \<Rightarrow> exchange" where
  "sample_net url =
     (if url = ''https://one.example/rss'' then ResponseEnd 200 [take 40 body_one, drop 40 body_one]
      else if url = ''https://two.example/rss'' then ResponseEnd 500 [''Internal Server Error'']
      else if url = ''https://three.example/atom'' then ResponseEnd 200 [body_three]
      else if url = ''https://four.example/rss'' then ResponseEnd 200 [body_four]
      else if url = ''https://five.example/rss'' then ResponseEnd 200 [body_five]
      else if url = ''https://six.example/rss'' then ResponseAborted 200 [take 40 body_one]
      else if url = ''https://seven.example/rss'' then ResponseEnd 200 [body_seven]
      else RequestError ''getaddrinfo ENOTFOUND'')"

definition sample_parse :: "string \<Rightarrow> js_error + jsval" where
  "sample_parse xmlData =
     (if xmlData = body_one then Inr doc_one
      else if xmlData = body_three then Inr doc_three
      else if xmlData = body_four then Inr doc_four
      else if xmlData = body_seven then Inr doc_seven
      else Inl (ParseError ''Comment is not closed.''))"

definition sample_clock :: "nat \<Rightarrow> string" where
  "sample_clock k =
     (if k = 0 then ''2026-01-01T00:00:00.000Z'' else ''2026-01-01T00:00:00.250Z'')"

definition sample_date :: "jsval \<Rightarrow> int option" where
  "sample_date v =
     (case v of
        JStr s \<Rightarrow>
          (if s = ''1970-01-01T00:00:01.000Z'' then Some 1000
           else if s = ''1970-01-01T00:00:02.000Z'' then Some 2000
           else if s = ''1970-01-01T00:00:03.000Z'' then Some 3000
           else None)
      | _ \<Rightarrow> None)"

definition sample_world :: world where
  "sample_world =
     \<lparr> net = sample_net,
       xml_parse = sample_parse,
       clock = sample_clock,
       date_time = sample_date,
       engine_sort = (\<lambda>comparefn xs. xs),
       openai = (\<lambda>newsData. Some (Inr (JStr ''digest''))),
       telegram = (\<lambda>message. Some (Inr (JObj [(''ok'', JBool True)]))) \<rparr>"

definition item_of :: "string \<Rightarrow> string \<Rightarrow> news_item" where
  "item_of t d =
     \<lparr> title = JStr t, link = JStr '''', pubDate = JStr d, content = JStr '''',
       contentSnippet = JStr '''', creator = JStr ''Unknown'' \<rparr>"

section \<open>Notions the claims are stated with\<close>

text \<open>The value of \<^verbatim>\<open>item.description || item.summary || ''\<close>.\<close>

definition content_source :: "jsval \<Rightarrow> jsval" where
  "content_source item =
     js_or (lookup_prop item ''description'') (js_or (lookup_prop item ''summary'') (JStr ''''))"

text \<open>A node on which the normalizer does not throw (claim C6 shows that this is so).\<close>

definition normalizes :: "jsval \<Rightarrow> bool" where
  "normalizes node = (\<not> nullish node \<and> is_string (content_source node))"

text \<open>
  The nodes of a feed that gets through: its request resolves, the parser accepts the
  body, and no node makes the normalizer throw. Any other feed has none.
\<close>

definition nodes_through :: "world \<Rightarrow> string \<Rightarrow> jsval list" where
  "nodes_through w feedUrl =
     (case httpsRequest (net w feedUrl) of
        Some (Inr xmlData) \<Rightarrow>
          (case xml_parse w xmlData of
             Inr parsed \<Rightarrow>
               (case select_items parsed of
                  Inr nodes \<Rightarrow> if list_all normalizes nodes then nodes else []
                | Inl e \<Rightarrow> [])
           | Inl e \<Rightarrow> [])
      | _ \<Rightarrow> [])"

text \<open>
  The items are the normalized nodes, one for one and in the same order, each
  normalized with one of the readings of the clock.
\<close>

definition normalized_from :: "(nat \<Rightarrow> string) \<Rightarrow> jsval list \<Rightarrow> news_item list \<Rightarrow> bool" where
  "normalized_from clk nodes items =
     list_all2 (\<lambda>node n. \<exists>j. normalize (clk j) node = Inr n) nodes items"


text \<open>No field of an item is \<^verbatim>\<open>undefined\<close> or \<^verbatim>\<open>null\<close>; every field of an item is a string.\<close>

definition never_missing :: "news_item \<Rightarrow> bool" where
  "never_missing n =
     (\<not> nullish (title n) \<and> \<not> nullish (link n) \<and> \<not> nullish (pubDate n) \<and>
      \<not> nullish (content n) \<and> \<not> nullish (contentSnippet n) \<and> \<not> nullish (creator n))"

definition all_strings :: "news_item \<Rightarrow> bool" where
  "all_strings n =
     (is_string (title n) \<and> is_string (link n) \<and> is_string (pubDate n) \<and>
      is_string (content n) \<and> is_string (contentSnippet n) \<and> is_string (creator n))"

text \<open>
  The source value that decides a field before its literal default: the first truthy
  operand of the chain, or the last operand when none is truthy.
\<close>

definition chosen_date :: "jsval \<Rightarrow> jsval" where
  "chosen_date item = js_or (lookup_prop item ''pubDate'') (lookup_prop item ''published'')"

definition chosen_creator :: "jsval \<Rightarrow> jsval" where
  "chosen_creator item =
     js_or (lookup_prop item ''dc:creator'') (opt_prop (lookup_prop item ''author'') ''name'')"

definition string_or_falsy :: "jsval \<Rightarrow> bool" where
  "string_or_falsy v = (is_string v \<or> \<not> truthy v)"

text \<open>The output is in descending order of time: each item is at least as new as the next.\<close>

definition newest_to_oldest :: "world \<Rightarrow> news_item list \<Rightarrow> bool" where
  "newest_to_oldest w ns = successively (\<lambda>a b. time_ge (timestamp w a) (timestamp w b)) ns"

text \<open>
  The normalizer output for a parsed document: the items selected in lines 52 to 61,
  mapped in lines 64 to 71, when \<open>k\<close> clock readings have been taken.
\<close>

definition normalized_items ::
  "(nat \<Rightarrow> string) \<Rightarrow> nat \<Rightarrow> jsval \<Rightarrow> (js_error + news_item list) \<times> nat" where
  "normalized_items clk k parsed =
     (case select_items parsed of
        Inl e \<Rightarrow> (Inl e, k)
      | Inr items \<Rightarrow> map_normalize clk k items)"

section \<open>Properties of the tag stripper\<close>

lemma set_tl_subset: "set (tl xs) \<subseteq> set xs"
  by (cases xs) auto

lemma match_tag_rest_subset: "match_tag s = Some rest \<Longrightarrow> set rest \<subseteq> set s"
proof (cases s)
  case Nil
  assume "match_tag s = Some rest"
  with Nil show ?thesis by simp
next
  case (Cons c cs)
  assume "match_tag s = Some rest"
  with Cons have rest: "rest = tl (dropWhile (\<lambda>d. d \<noteq> CHR ''>'') cs)"
    by (simp split: if_splits)
  have "set rest \<subseteq> set (dropWhile (\<lambda>d. d \<noteq> CHR ''>'') cs)"
    unfolding rest by (rule set_tl_subset)
  moreover have "set (dropWhile (\<lambda>d. d \<noteq> CHR ''>'') cs) \<subseteq> set cs"
    by (blast dest: set_dropWhileD)
  ultimately show ?thesis using Cons by auto
qed

lemma strip_tags_kept:
  "match_tag (c # cs) = None \<Longrightarrow> strip_tags (c # cs) = c # strip_tags cs"
  by (simp del: match_tag.simps)

lemma strip_tags_dropped:
  "match_tag (c # cs) = Some rest \<Longrightarrow> strip_tags (c # cs) = strip_tags rest"
  by (simp del: match_tag.simps)


lemma set_strip_tags: "set (strip_tags s) \<subseteq> set s"
proof (induction s rule: strip_tags.induct)
  case 1
  show ?case by simp
next
  case (2 c cs)
  show ?case
  proof (cases "match_tag (c # cs)")
    case None
    have "set (strip_tags cs) \<subseteq> set cs" by (rule "2.IH"(1)[OF None])
    then show ?thesis unfolding strip_tags_kept[OF None] by auto
  next
    case (Some rest)
    have "set (strip_tags rest) \<subseteq> set rest" by (rule "2.IH"(2)[OF Some])
    moreover have "set rest \<subseteq> set (c # cs)" by (rule match_tag_rest_subset[OF Some])
    ultimately show ?thesis unfolding strip_tags_dropped[OF Some] by blast
  qed
qed

lemma strip_tags_no_span: "\<not> has_tag_span (strip_tags s)"
proof (induction s rule: strip_tags.induct)
  case 1
  show ?case by simp
next
  case (2 c cs)
  show ?case
  proof (cases "match_tag (c # cs)")
    case None
    have ih: "\<not> has_tag_span (strip_tags cs)" by (rule "2.IH"(1)[OF None])
    from None have "c \<noteq> CHR ''<'' \<or> CHR ''>'' \<notin> set cs"
      by (simp split: if_splits)
    then have "c \<noteq> CHR ''<'' \<or> CHR ''>'' \<notin> set (strip_tags cs)"
      using set_strip_tags[of cs] by blast
    then have "match_tag (c # strip_tags cs) = None"
      by auto
    with ih show ?thesis unfolding strip_tags_kept[OF None] by (simp del: match_tag.simps)
  next
    case (Some rest)
    have "\<not> has_tag_span (strip_tags rest)" by (rule "2.IH"(2)[OF Some])
    then show ?thesis unfolding strip_tags_dropped[OF Some] .
  qed
qed

lemma take_has_span: "has_tag_span (take n s) \<Longrightarrow> has_tag_span s"
proof (induction s arbitrary: n)
  case Nil
  then show ?case by simp
next
  case (Cons c cs)
  show ?case
  proof (cases n)
    case 0
    with Cons.prems show ?thesis by simp
  next
    case (Suc m)
    with Cons.prems have "(c = CHR ''<'' \<and> CHR ''>'' \<in> set (take m cs)) \<or> has_tag_span (take m cs)"
      by (auto split: if_splits)
    then show ?thesis
    proof
      assume "c = CHR ''<'' \<and> CHR ''>'' \<in> set (take m cs)"
      then have "c = CHR ''<'' \<and> CHR ''>'' \<in> set cs"
        by (blast dest: in_set_takeD)
      then show ?thesis by simp
    next
      assume "has_tag_span (take m cs)"
      then have "has_tag_span cs" by (rule Cons.IH)
      then show ?thesis by simp
    qed
  qed
qed

section \<open>How the fetcher settles\<close>

lemma foldl_append_concat:
  "foldl (\<lambda>data chunk. data @ chunk) acc chunks = acc @ concat chunks"
  by (induction chunks arbitrary: acc) simp_all

text \<open>
  Claim C7, amended. \<^verbatim>\<open>httpsRequest\<close> resolves with the raw body, the chunks in the order
  they came, exactly when the response ended with a status code from 200 to 299. It
  rejects exactly when the request emitted a transport error, and then with that error,
  or the response ended with any other status code, and then with an error that carries
  the status code and the body. It does neither, and the promise stays pending for good,
  exactly when a response began and the connection closed before its end, whatever the
  status code was.
\<close>

theorem httpsRequest_settles:
  "(httpsRequest x = Some (Inr body) \<longleftrightarrow>
      (\<exists>statusCode chunks. x = ResponseEnd statusCode chunks \<and>
         200 \<le> statusCode \<and> statusCode < 300 \<and> body = concat chunks)) \<and>
   (httpsRequest x = Some (Inl err) \<longleftrightarrow>
      (\<exists>e. x = RequestError e \<and> err = TransportError e) \<or>
      (\<exists>statusCode chunks. x = ResponseEnd statusCode chunks \<and>
         (statusCode < 200 \<or> 300 \<le> statusCode) \<and>
         err = HttpError statusCode (concat chunks))) \<and>
   (httpsRequest x = None \<longleftrightarrow>
      (\<exists>statusCode chunks. x = ResponseAborted statusCode chunks))"
  by (cases x) (auto simp: httpsRequest_def foldl_append_concat Let_def)

theorem httpsRequest_settles_witness:
  "httpsRequest (ResponseEnd 204 [''ab'', ''c'']) = Some (Inr ''abc'') \<and>
   httpsRequest (ResponseEnd 404 [''no'']) = Some (Inl (HttpError 404 ''no'')) \<and>
   httpsRequest (RequestError ''ECONNREFUSED'') = Some (Inl (TransportError ''ECONNREFUSED'')) \<and>
   httpsRequest (ResponseAborted 200 [''ab'']) = None"
  using httpsRequest_settles[of "ResponseEnd 204 [''ab'', ''c'']" "''abc''"]
    httpsRequest_settles[of "ResponseEnd 404 [''no'']" _ "HttpError 404 ''no''"]
    httpsRequest_settles[of "RequestError ''ECONNREFUSED''" _ "TransportError ''ECONNREFUSED''"]
    httpsRequest_settles[of "ResponseAborted 200 [''ab'']"]
  by simp

text \<open>
  Claim C7 as stated fails. A response with status 200 whose connection is lost in the
  middle of the body is a transport error after a 2xx status: the claim asks for a
  resolved or a rejected promise, and the promise is never settled.
\<close>

theorem aborted_response_never_settles:
  "httpsRequest (ResponseAborted 200 [''<rss><chan'']) = None"
  by (simp add: httpsRequest_def)

section \<open>Field resolution\<close>

text \<open>
  The second operand of \<^verbatim>\<open>item.title || item.title?.['#text'] || 'No title'\<close> and of
  \<^verbatim>\<open>item.link || item.link?.['@_href'] || ''\<close> is only evaluated when the direct field
  is falsy, and a falsy value has no \<^verbatim>\<open>#text\<close> or \<^verbatim>\<open>@_href\<close> property: the nested
  location never decides the result.
\<close>

lemma alternate_location_unreachable:
  "k \<noteq> ''link'' \<Longrightarrow> js_or v (js_or (opt_prop v k) d) = js_or v d"
  by (cases v) (simp_all add: js_or_def opt_prop_def)

text \<open>
  Claim C1. The entry \<^verbatim>\<open><entry><link href="http://x"/><author><name>Bob</name></author></entry>\<close>
  reaches the normalizer as an object whose \<^verbatim>\<open>link\<close> is the object
  \<^verbatim>\<open>{'@_href': 'http://x'}\<close> and whose \<^verbatim>\<open>author\<close> is \<^verbatim>\<open>{name: 'Bob'}\<close>. The
  normalizer gives it the title \<^verbatim>\<open>No title\<close> and the creator \<^verbatim>\<open>Bob\<close>, but its link is
  the whole nested object, not the string \<^verbatim>\<open>http://x\<close> the claim asks for: the object is
  truthy, so \<^verbatim>\<open>||\<close> stops at the direct field.
\<close>

theorem normalize_entry_href_link:
  "normalize now
     (JObj [(''link'', JObj [(''@_href'', JStr ''http://x'')]),
            (''author'', JObj [(''name'', JStr ''Bob'')])]) =
   Inr \<lparr> title = JStr ''No title'', link = JObj [(''@_href'', JStr ''http://x'')],
         pubDate = JStr now, content = JStr '''', contentSnippet = JStr '''',
         creator = JStr ''Bob'' \<rparr>"
  by (simp add: normalize_def get_prop_def opt_prop_def js_or_def snippet_of_def
        substring_0_120_def Let_def)

section \<open>What a successful normalization returns\<close>

lemma normalize_Inr:
  "normalize now item = Inr n \<Longrightarrow>
     \<not> nullish item \<and>
     (\<exists>s. js_or (lookup_prop item ''description'')
            (js_or (lookup_prop item ''summary'') (JStr '''')) = JStr s \<and>
          content n = JStr s \<and>
          contentSnippet n = JStr (substring_0_120 (strip_tags s)))"
  by (auto simp: normalize_def get_prop_def snippet_of_def Let_def
           split: if_splits sum.splits jsval.splits)

text \<open>
  Claim C4. Whenever the normalizer produces an item, its content is a string, and its
  snippet is that string with every \<^verbatim>\<open><...>\<close> span removed and then cut to the first
  120 characters: the snippet is at most 120 long and the pattern \<^verbatim>\<open><[^>]*>\<close> matches
  nowhere in it. A description of \<^verbatim>\<open><b>Hi</b>\<close> followed by 200 times \<^verbatim>\<open>x\<close> gives
  the snippet \<^verbatim>\<open>Hi\<close> followed by 118 times \<^verbatim>\<open>x\<close>.
\<close>

theorem snippet_stripped_then_cut:
  "(normalize now item = Inr n \<longrightarrow>
      (\<exists>s. content n = JStr s \<and>
           contentSnippet n = JStr (take 120 (strip_tags s)) \<and>
           length (take 120 (strip_tags s)) \<le> 120 \<and>
           \<not> has_tag_span (take 120 (strip_tags s)))) \<and>
   map_sum id contentSnippet
     (normalize now (JObj [(''description'', JStr (''<b>Hi</b>'' @ replicate 200 CHR ''x''))])) =
   Inr (JStr (''Hi'' @ replicate 118 CHR ''x''))"
proof (intro conjI impI)
  assume "normalize now item = Inr n"
  then obtain s where c: "content n = JStr s"
    and sn: "contentSnippet n = JStr (substring_0_120 (strip_tags s))"
    using normalize_Inr by blast
  have "\<not> has_tag_span (take 120 (strip_tags s))"
    using take_has_span strip_tags_no_span by blast
  with c sn show "\<exists>s. content n = JStr s \<and>
           contentSnippet n = JStr (take 120 (strip_tags s)) \<and>
           length (take 120 (strip_tags s)) \<le> 120 \<and>
           \<not> has_tag_span (take 120 (strip_tags s))"
    by (simp add: substring_0_120_def)
next
  have "snippet_of (JStr (''<b>Hi</b>'' @ replicate 200 CHR ''x'')) =
        Inr (JStr (''Hi'' @ replicate 118 CHR ''x''))"
    by code_simp
  then show "map_sum id contentSnippet
     (normalize now (JObj [(''description'', JStr (''<b>Hi</b>'' @ replicate 200 CHR ''x''))])) =
   Inr (JStr (''Hi'' @ replicate 118 CHR ''x''))"
    by (simp add: normalize_def get_prop_def js_or_def Let_def)
qed

theorem snippet_stripped_then_cut_witness:
  "normalize ''t'' (JObj [(''summary'', JStr ''a<i>b</i>c'')]) =
     Inr \<lparr> title = JStr ''No title'', link = JStr '''', pubDate = JStr ''t'',
           content = JStr ''a<i>b</i>c'', contentSnippet = JStr ''abc'',
           creator = JStr ''Unknown'' \<rparr> \<and>
   (\<exists>s. JStr ''a<i>b</i>c'' = JStr s \<and>
        JStr ''abc'' = JStr (take 120 (strip_tags s)) \<and>
        length (take 120 (strip_tags s)) \<le> 120 \<and>
        \<not> has_tag_span (take 120 (strip_tags s)))"
proof -
  have n: "normalize ''t'' (JObj [(''summary'', JStr ''a<i>b</i>c'')]) =
     Inr \<lparr> title = JStr ''No title'', link = JStr '''', pubDate = JStr ''t'',
           content = JStr ''a<i>b</i>c'', contentSnippet = JStr ''abc'',
           creator = JStr ''Unknown'' \<rparr>"
    by (simp add: normalize_def get_prop_def opt_prop_def js_or_def snippet_of_def
          substring_0_120_def Let_def)
  show ?thesis
    using n snippet_stripped_then_cut[of "''t''" "JObj [(''summary'', JStr ''a<i>b</i>c'')]"
      "\<lparr> title = JStr ''No title'', link = JStr '''', pubDate = JStr ''t'',
           content = JStr ''a<i>b</i>c'', contentSnippet = JStr ''abc'',
           creator = JStr ''Unknown'' \<rparr>"]
    by simp
qed

section \<open>Which nodes are the items\<close>

lemma truthy_rss_item_not_nullish: "truthy (rss_item parsed) \<Longrightarrow> \<not> nullish parsed"
  by (cases parsed) (simp_all add: rss_item_def opt_prop_def)

lemma select_items_rss:
  "truthy (rss_item parsed) \<Longrightarrow> select_items parsed = Inr (as_array (rss_item parsed))"
  using truthy_rss_item_not_nullish[of parsed]
  by (simp add: select_items_def get_prop_def)

text \<open>
  Claim C10, amended. When \<^verbatim>\<open>rss.channel.item\<close> of a parsed document is truthy, the items
  are those of \<^verbatim>\<open>rss.channel.item\<close> alone, whatever \<^verbatim>\<open>feed.entry\<close> holds. When it is
  falsy, also when it is present as \<^verbatim>\<open>0\<close>, \<^verbatim>\<open>false\<close> or the empty string, and
  \<^verbatim>\<open>feed.entry\<close> is truthy, the items are the entries.
\<close>

theorem item_dialect_takes_precedence:
  "(truthy (rss_item both) \<longrightarrow> select_items both = Inr (as_array (rss_item both))) \<and>
   (\<not> nullish other \<and> \<not> truthy (rss_item other) \<and> truthy (feed_entry other) \<longrightarrow>
      select_items other = Inr (as_array (feed_entry other)))"
  by (simp add: select_items_rss) (simp add: select_items_def get_prop_def)

theorem item_dialect_takes_precedence_witness:
  "select_items
     (JObj [(''rss'', JObj [(''channel'', JObj [(''item'', JArr [JObj [(''title'', JStr ''A'')],
                                                              JObj [(''title'', JStr ''B'')]])])]),
            (''feed'', JObj [(''entry'', JObj [(''title'', JStr ''C'')])])]) =
   Inr [JObj [(''title'', JStr ''A'')], JObj [(''title'', JStr ''B'')]] \<and>
   select_items
     (JObj [(''rss'', JObj [(''channel'', JObj [(''item'', JBool False)])]),
            (''feed'', JObj [(''entry'', JObj [(''title'', JStr ''C'')])])]) =
   Inr [JObj [(''title'', JStr ''C'')]]"
  using item_dialect_takes_precedence[where both =
     "JObj [(''rss'', JObj [(''channel'', JObj [(''item'', JArr [JObj [(''title'', JStr ''A'')],
                                                              JObj [(''title'', JStr ''B'')]])])]),
            (''feed'', JObj [(''entry'', JObj [(''title'', JStr ''C'')])])]"
     and other =
     "JObj [(''rss'', JObj [(''channel'', JObj [(''item'', JBool False)])]),
            (''feed'', JObj [(''entry'', JObj [(''title'', JStr ''C'')])])]"]
  by (simp add: rss_item_def feed_entry_def opt_prop_def)

text \<open>
  Claim C10 as stated fails. \<^verbatim>\<open><item>0</item>\<close> reaches the program as the number 0:
  the item field is present and not empty, an entry is present as well, and the entry is
  what the program uses.
\<close>

theorem zero_item_node_yields_entries:
  "select_items
     (JObj [(''rss'', JObj [(''channel'', JObj [(''item'', JNum 0)])]),
            (''feed'', JObj [(''entry'', JObj [(''title'', JStr ''C'')])])]) =
   Inr [JObj [(''title'', JStr ''C'')]]"
  by (simp add: select_items_def rss_item_def feed_entry_def get_prop_def opt_prop_def)

section \<open>When the normalizer returns and what it returns\<close>

lemma normalize_returns:
  assumes "\<not> nullish item" and "content_source item = JStr s"
  shows "normalize now item =
     Inr \<lparr> title = js_or (lookup_prop item ''title'') (JStr ''No title''),
           link = js_or (lookup_prop item ''link'') (JStr ''''),
           pubDate = js_or (lookup_prop item ''pubDate'')
                       (js_or (lookup_prop item ''published'') (JStr now)),
           content = JStr s,
           contentSnippet = JStr (take 120 (strip_tags s)),
           creator = js_or (lookup_prop item ''dc:creator'')
                       (js_or (opt_prop (lookup_prop item ''author'') ''name'')
                          (JStr ''Unknown'')) \<rparr>"
proof -
  have "js_or (lookup_prop item ''description'')
          (js_or (lookup_prop item ''summary'') (JStr '''')) = JStr s"
    using assms(2) by (simp add: content_source_def)
  then show ?thesis
    using assms(1)
    by (simp add: normalize_def get_prop_def snippet_of_def substring_0_120_def Let_def
          alternate_location_unreachable)
qed

lemma normalize_throws:
  assumes "nullish item \<or> \<not> is_string (content_source item)"
  shows "\<exists>e. normalize now item = Inl e"
proof (cases "nullish item")
  case True
  then show ?thesis by (simp add: normalize_def get_prop_def)
next
  case False
  with assms have "\<not> is_string (js_or (lookup_prop item ''description'')
          (js_or (lookup_prop item ''summary'') (JStr '''')))"
    by (simp add: content_source_def)
  then have "\<exists>e. snippet_of (js_or (lookup_prop item ''description'')
          (js_or (lookup_prop item ''summary'') (JStr ''''))) = Inl e"
    by (cases "js_or (lookup_prop item ''description'')
          (js_or (lookup_prop item ''summary'') (JStr ''''))") (simp_all add: snippet_of_def)
  then show ?thesis
    using False by (auto simp: normalize_def get_prop_def Let_def)
qed

text \<open>
  Claim C6, amended. The normalizer throws exactly when the node is \<^verbatim>\<open>undefined\<close> or
  \<^verbatim>\<open>null\<close>, or the value of \<^verbatim>\<open>item.description || item.summary || ''\<close> is not a
  string. In every other case it returns an item, whatever the title, link, dates and
  creator are; a node without any of the fields gets the documented defaults.
\<close>

theorem normalize_throws_iff:
  "((\<exists>e. normalize now item = Inl e) \<longleftrightarrow>
      nullish item \<or> \<not> is_string (content_source item)) \<and>
   ((\<exists>n. normalize now item = Inr n) \<longleftrightarrow>
      \<not> nullish item \<and> is_string (content_source item)) \<and>
   normalize now (JObj []) =
     Inr \<lparr> title = JStr ''No title'', link = JStr '''', pubDate = JStr now,
           content = JStr '''', contentSnippet = JStr '''', creator = JStr ''Unknown'' \<rparr>"
proof -
  have r: "\<exists>n. normalize now item = Inr n"
    if "\<not> nullish item \<and> is_string (content_source item)"
  proof -
    from that obtain s where "content_source item = JStr s"
      by (cases "content_source item") simp_all
    with that normalize_returns show ?thesis by blast
  qed
  have l: "\<exists>e. normalize now item = Inl e"
    if "nullish item \<or> \<not> is_string (content_source item)"
    using that by (rule normalize_throws)
  have x: "\<not> ((\<exists>e. normalize now item = Inl e) \<and> (\<exists>n. normalize now item = Inr n))"
    by auto
  have d: "normalize now (JObj []) =
     Inr \<lparr> title = JStr ''No title'', link = JStr '''', pubDate = JStr now,
           content = JStr '''', contentSnippet = JStr '''', creator = JStr ''Unknown'' \<rparr>"
    by (simp add: normalize_def get_prop_def opt_prop_def js_or_def snippet_of_def
        substring_0_120_def Let_def)
  show ?thesis
    using r l x d by blast
qed

theorem normalize_throws_iff_witness:
  "(\<exists>e. normalize ''t'' (JObj [(''description'', JObj [(''p'', JStr ''x'')])]) = Inl e) \<and>
   (\<exists>n. normalize ''t'' (JObj [(''title'', JNum 7), (''link'', JObj [(''@_href'', JStr ''u'')])]) =
      Inr n)"
proof -
  have a: "\<not> is_string (content_source (JObj [(''description'', JObj [(''p'', JStr ''x'')])]))"
    by (simp add: content_source_def js_or_def)
  have b: "\<not> nullish (JObj [(''title'', JNum 7), (''link'', JObj [(''@_href'', JStr ''u'')])]) \<and>
     is_string (content_source
       (JObj [(''title'', JNum 7), (''link'', JObj [(''@_href'', JStr ''u'')])]))"
    by (simp add: content_source_def js_or_def)
  show ?thesis
    using a b
      normalize_throws_iff[of "''t''" "JObj [(''description'', JObj [(''p'', JStr ''x'')])]"]
      normalize_throws_iff[of "''t''"
        "JObj [(''title'', JNum 7), (''link'', JObj [(''@_href'', JStr ''u'')])]"]
    by blast
qed

text \<open>
  Claim C6 as stated fails. The parser turns \<^verbatim>\<open><description>5</description>\<close> into
  the number 5, which has no method \<^verbatim>\<open>replace\<close>: the normalizer throws a TypeError.
\<close>

theorem numeric_description_throws:
  "normalize ''2026-01-01T00:00:00.000Z'' (JObj [(''title'', JStr ''A''), (''description'', JNum 5)]) =
     Inl (TypeError ''replace is not a function'')"
  by (simp add: normalize_def get_prop_def js_or_def snippet_of_def Let_def)

lemma truthy_not_nullish: "truthy v \<Longrightarrow> \<not> nullish v"
  by (cases v) simp_all

lemma js_or_not_nullish: "\<not> nullish d \<Longrightarrow> \<not> nullish (js_or v d)"
  by (simp add: js_or_def truthy_not_nullish)

lemma js_or_string: "string_or_falsy v \<Longrightarrow> is_string d \<Longrightarrow> is_string (js_or v d)"
  by (auto simp: js_or_def string_or_falsy_def)

lemma js_or_assoc: "js_or a (js_or b c) = js_or (js_or a b) c"
  by (simp add: js_or_def)

lemma normalize_Inr_source:
  assumes "normalize now item = Inr n"
  shows "\<not> nullish item \<and> (\<exists>s. content_source item = JStr s)"
proof -
  have "\<not> (nullish item \<or> \<not> is_string (content_source item))"
    using normalize_throws[of item now] assms by auto
  then show ?thesis
    by (cases "content_source item") simp_all
qed

text \<open>
  Claim C2, amended. Every item the normalizer returns has all six fields, and none of
  them is \<^verbatim>\<open>undefined\<close> or \<^verbatim>\<open>null\<close>: a missing source field ends in the literal
  default. Its content and its snippet are strings. Its title, link, date and creator are
  strings whenever the source value that decides the field is falsy or a string:
  \<^verbatim>\<open>item.title\<close> for the title, \<^verbatim>\<open>item.link\<close> for the link, \<^verbatim>\<open>item.pubDate\<close> or else
  \<^verbatim>\<open>item.published\<close> for the date, \<^verbatim>\<open>item['dc:creator']\<close> or else the name of the author
  for the creator. A source value that is not consulted does not matter.
\<close>

theorem string_sources_give_string_fields:
  assumes "normalize now item = Inr n"
  shows "never_missing n \<and> is_string (content n) \<and> is_string (contentSnippet n) \<and>
         (string_or_falsy (lookup_prop item ''title'') \<longrightarrow> is_string (title n)) \<and>
         (string_or_falsy (lookup_prop item ''link'') \<longrightarrow> is_string (link n)) \<and>
         (string_or_falsy (chosen_date item) \<longrightarrow> is_string (pubDate n)) \<and>
         (string_or_falsy (chosen_creator item) \<longrightarrow> is_string (creator n)) \<and>
         (string_or_falsy (lookup_prop item ''title'') \<and>
          string_or_falsy (lookup_prop item ''link'') \<and>
          string_or_falsy (chosen_date item) \<and>
          string_or_falsy (chosen_creator item) \<longrightarrow> all_strings n)"
proof -
  obtain s where nn: "\<not> nullish item" and s: "content_source item = JStr s"
    using normalize_Inr_source[OF assms] by blast
  have n: "n = \<lparr> title = js_or (lookup_prop item ''title'') (JStr ''No title''),
           link = js_or (lookup_prop item ''link'') (JStr ''''),
           pubDate = js_or (chosen_date item) (JStr now),
           content = JStr s,
           contentSnippet = JStr (take 120 (strip_tags s)),
           creator = js_or (chosen_creator item) (JStr ''Unknown'') \<rparr>"
    using normalize_returns[OF nn s, of now] assms
    by (simp add: js_or_assoc chosen_date_def chosen_creator_def)
  show ?thesis
    unfolding n by (simp add: never_missing_def all_strings_def js_or_not_nullish js_or_string)
qed

theorem string_sources_give_string_fields_witness:
  "normalize ''2026-01-01T00:00:00.000Z''
     (JObj [(''title'', JStr ''A''), (''link'', JStr ''http://a''),
            (''pubDate'', JStr ''1970-01-01T00:00:01.000Z''), (''published'', JNum 5),
            (''description'', JNum 0), (''summary'', JStr ''<p>s</p>''),
            (''author'', JObj [(''name'', JStr ''Bob'')])]) =
   Inr \<lparr> title = JStr ''A'', link = JStr ''http://a'', pubDate = JStr ''1970-01-01T00:00:01.000Z'',
         content = JStr ''<p>s</p>'', contentSnippet = JStr ''s'', creator = JStr ''Bob'' \<rparr> \<and>
   never_missing
     \<lparr> title = JStr ''A'', link = JStr ''http://a'', pubDate = JStr ''1970-01-01T00:00:01.000Z'',
       content = JStr ''<p>s</p>'', contentSnippet = JStr ''s'', creator = JStr ''Bob'' \<rparr> \<and>
   all_strings
     \<lparr> title = JStr ''A'', link = JStr ''http://a'', pubDate = JStr ''1970-01-01T00:00:01.000Z'',
       content = JStr ''<p>s</p>'', contentSnippet = JStr ''s'', creator = JStr ''Bob'' \<rparr>"
proof -
  have n: "normalize ''2026-01-01T00:00:00.000Z''
     (JObj [(''title'', JStr ''A''), (''link'', JStr ''http://a''),
            (''pubDate'', JStr ''1970-01-01T00:00:01.000Z''), (''published'', JNum 5),
            (''description'', JNum 0), (''summary'', JStr ''<p>s</p>''),
            (''author'', JObj [(''name'', JStr ''Bob'')])]) =
   Inr \<lparr> title = JStr ''A'', link = JStr ''http://a'', pubDate = JStr ''1970-01-01T00:00:01.000Z'',
         content = JStr ''<p>s</p>'', contentSnippet = JStr ''s'', creator = JStr ''Bob'' \<rparr>"
    by (simp add: normalize_def get_prop_def opt_prop_def js_or_def snippet_of_def
          substring_0_120_def Let_def)
  have src: "string_or_falsy (lookup_prop
       (JObj [(''title'', JStr ''A''), (''link'', JStr ''http://a''),
            (''pubDate'', JStr ''1970-01-01T00:00:01.000Z''), (''published'', JNum 5),
            (''description'', JNum 0), (''summary'', JStr ''<p>s</p>''),
            (''author'', JObj [(''name'', JStr ''Bob'')])]) ''title'') \<and>
     string_or_falsy (lookup_prop
       (JObj [(''title'', JStr ''A''), (''link'', JStr ''http://a''),
            (''pubDate'', JStr ''1970-01-01T00:00:01.000Z''), (''published'', JNum 5),
            (''description'', JNum 0), (''summary'', JStr ''<p>s</p>''),
            (''author'', JObj [(''name'', JStr ''Bob'')])]) ''link'') \<and>
     string_or_falsy (chosen_date
       (JObj [(''title'', JStr ''A''), (''link'', JStr ''http://a''),
            (''pubDate'', JStr ''1970-01-01T00:00:01.000Z''), (''published'', JNum 5),
            (''description'', JNum 0), (''summary'', JStr ''<p>s</p>''),
            (''author'', JObj [(''name'', JStr ''Bob'')])])) \<and>
     string_or_falsy (chosen_creator
       (JObj [(''title'', JStr ''A''), (''link'', JStr ''http://a''),
            (''pubDate'', JStr ''1970-01-01T00:00:01.000Z''), (''published'', JNum 5),
            (''description'', JNum 0), (''summary'', JStr ''<p>s</p>''),
            (''author'', JObj [(''name'', JStr ''Bob'')])]))"
    by (simp add: string_or_falsy_def chosen_date_def chosen_creator_def js_or_def opt_prop_def)
  show ?thesis
    using string_sources_give_string_fields[OF n] n src by blast
qed

text \<open>
  Claim C2 as stated fails. The parser turns \<^verbatim>\<open><title>2024</title>\<close> into the number
  2024; the normalizer passes it on as it is, so the title of the item is a number.
\<close>

theorem numeric_title_stays_a_number:
  "map_sum id all_strings
     (normalize ''2026-01-01T00:00:00.000Z'' (JObj [(''title'', JNum 2024)])) = Inr False \<and>
   map_sum id title
     (normalize ''2026-01-01T00:00:00.000Z'' (JObj [(''title'', JNum 2024)])) = Inr (JNum 2024)"
  by (simp add: normalize_def get_prop_def opt_prop_def js_or_def snippet_of_def
        substring_0_120_def all_strings_def Let_def)

section \<open>What the aggregator collects\<close>

lemma normalizes_returns: "normalizes node \<Longrightarrow> \<exists>n. normalize now node = Inr n"
proof -
  assume "normalizes node"
  then have nn: "\<not> nullish node" and "is_string (content_source node)"
    by (simp_all add: normalizes_def)
  then obtain s where "content_source node = JStr s"
    by (cases "content_source node") simp_all
  with nn normalize_returns show ?thesis by blast
qed

lemma not_normalizes_throws: "\<not> normalizes node \<Longrightarrow> \<exists>e. normalize now node = Inl e"
  by (rule normalize_throws) (simp add: normalizes_def)

lemma map_normalize_all:
  "list_all normalizes nodes \<Longrightarrow>
     \<exists>ns k'. map_normalize clk k nodes = (Inr ns, k') \<and> normalized_from clk nodes ns"
proof (induction nodes arbitrary: k)
  case Nil
  show ?case by (simp add: normalized_from_def)
next
  case (Cons node nodes)
  from Cons.prems have "normalizes node" and rest: "list_all normalizes nodes"
    by simp_all
  then obtain n where n: "normalize (clk k) node = Inr n"
    using normalizes_returns by blast
  obtain ns k' where
    m: "map_normalize clk (if reads_clock node then Suc k else k) nodes = (Inr ns, k')"
    and f: "normalized_from clk nodes ns"
    using Cons.IH[OF rest] by blast
  have "map_normalize clk k (node # nodes) = (Inr (n # ns), k')"
    using n m by simp
  moreover have "normalized_from clk (node # nodes) (n # ns)"
    using n f by (auto simp: normalized_from_def)
  ultimately show ?case by blast
qed

lemma map_normalize_some_throws:
  "\<not> list_all normalizes nodes \<Longrightarrow> \<exists>e k'. map_normalize clk k nodes = (Inl e, k')"
proof (induction nodes arbitrary: k)
  case Nil
  then show ?case by simp
next
  case (Cons node nodes)
  show ?case
  proof (cases "normalizes node")
    case False
    then obtain e where "normalize (clk k) node = Inl e"
      using not_normalizes_throws by blast
    then show ?thesis by simp
  next
    case True
    then obtain n where n: "normalize (clk k) node = Inr n"
      using normalizes_returns by blast
    from True Cons.prems have "\<not> list_all normalizes nodes" by simp
    then obtain e k' where
      "map_normalize clk (if reads_clock node then Suc k else k) nodes = (Inl e, k')"
      using Cons.IH by blast
    with n show ?thesis by simp
  qed
qed

text \<open>One feed: what the \<^verbatim>\<open>try\<close> block returns, against the nodes that get through.\<close>

lemma try_feed_settled:
  assumes "httpsRequest (net w feedUrl) \<noteq> None"
  shows "(\<exists>items k'. try_feed w k feedUrl = Some (Inr items, k') \<and>
            normalized_from (clock w) (nodes_through w feedUrl) items) \<or>
         (\<exists>e k'. try_feed w k feedUrl = Some (Inl e, k') \<and> nodes_through w feedUrl = [])"
proof -
  from assms obtain r where r: "httpsRequest (net w feedUrl) = Some r" by blast
  show ?thesis
  proof (cases r)
    case (Inl e)
    with r show ?thesis by (simp add: try_feed_def nodes_through_def)
  next
    case (Inr xmlData)
    note fetched = this
    show ?thesis
    proof (cases "xml_parse w xmlData")
      case (Inl e)
      with r fetched show ?thesis by (simp add: try_feed_def nodes_through_def)
    next
      case (Inr parsed)
      note parsed = this
      show ?thesis
      proof (cases "select_items parsed")
        case (Inl e)
        with r fetched parsed show ?thesis by (simp add: try_feed_def nodes_through_def)
      next
        case (Inr nodes)
        have t: "try_feed w k feedUrl = Some (map_normalize (clock w) k nodes)"
          using r fetched parsed Inr by (simp add: try_feed_def)
        show ?thesis
        proof (cases "list_all normalizes nodes")
          case True
          then have "nodes_through w feedUrl = nodes"
            using r fetched parsed Inr by (simp add: nodes_through_def)
          with map_normalize_all[OF True, of "clock w" k] t show ?thesis by auto
        next
          case False
          then have "nodes_through w feedUrl = []"
            using r fetched parsed Inr by (simp add: nodes_through_def)
          with map_normalize_some_throws[OF False, of "clock w" k] t show ?thesis by auto
        qed
      qed
    qed
  qed
qed

lemma try_feed_pending:
  "httpsRequest (net w feedUrl) = None \<Longrightarrow> try_feed w k feedUrl = None"
  by (simp add: try_feed_def)

lemma normalized_from_append:
  "normalized_from clk xs ns \<Longrightarrow> normalized_from clk ys ms \<Longrightarrow>
     normalized_from clk (xs @ ys) (ns @ ms)"
  by (simp add: normalized_from_def list_all2_appendI)

lemma feed_loop_collects:
  "\<forall>u \<in> set feeds. httpsRequest (net w u) \<noteq> None \<Longrightarrow>
     \<exists>items k'. feed_loop w k feeds allItems = Some (allItems @ items, k') \<and>
        normalized_from (clock w) (concat (map (nodes_through w) feeds)) items"
proof (induction feeds arbitrary: k allItems)
  case Nil
  show ?case by (simp add: normalized_from_def)
next
  case (Cons feedUrl feeds)
  from Cons.prems have settled: "httpsRequest (net w feedUrl) \<noteq> None"
    and rest: "\<forall>u \<in> set feeds. httpsRequest (net w u) \<noteq> None"
    by simp_all
  from try_feed_settled[OF settled, of k] show ?case
  proof
    assume "\<exists>items k'. try_feed w k feedUrl = Some (Inr items, k') \<and>
            normalized_from (clock w) (nodes_through w feedUrl) items"
    then obtain items k' where t: "try_feed w k feedUrl = Some (Inr items, k')"
      and f: "normalized_from (clock w) (nodes_through w feedUrl) items"
      by blast
    obtain more k'' where
      l: "feed_loop w k' feeds (allItems @ items) = Some ((allItems @ items) @ more, k'')"
      and g: "normalized_from (clock w) (concat (map (nodes_through w) feeds)) more"
      using Cons.IH[OF rest] by blast
    have "feed_loop w k (feedUrl # feeds) allItems = Some (allItems @ (items @ more), k'')"
      using t l by simp
    moreover have "normalized_from (clock w)
        (concat (map (nodes_through w) (feedUrl # feeds))) (items @ more)"
      using normalized_from_append[OF f g] by simp
    ultimately show ?thesis by blast
  next
    assume "\<exists>e k'. try_feed w k feedUrl = Some (Inl e, k') \<and> nodes_through w feedUrl = []"
    then obtain e k' where t: "try_feed w k feedUrl = Some (Inl e, k')"
      and none: "nodes_through w feedUrl = []"
      by blast
    obtain more k'' where
      l: "feed_loop w k' feeds allItems = Some (allItems @ more, k'')"
      and g: "normalized_from (clock w) (concat (map (nodes_through w) feeds)) more"
      using Cons.IH[OF rest] by blast
    have "feed_loop w k (feedUrl # feeds) allItems = Some (allItems @ more, k'')"
      using t l by simp
    moreover have "normalized_from (clock w)
        (concat (map (nodes_through w) (feedUrl # feeds))) more"
      using g none by simp
    ultimately show ?thesis by blast
  qed
qed

lemma feed_loop_pending:
  "\<exists>u \<in> set feeds. httpsRequest (net w u) = None \<Longrightarrow> feed_loop w k feeds allItems = None"
proof (induction feeds arbitrary: k allItems)
  case Nil
  then show ?case by simp
next
  case (Cons feedUrl feeds)
  show ?case
  proof (cases "httpsRequest (net w feedUrl)")
    case None
    then show ?thesis by (simp add: try_feed_pending)
  next
    case (Some r)
    with Cons.prems have later: "\<exists>u \<in> set feeds. httpsRequest (net w u) = None" by auto
    from Some have "httpsRequest (net w feedUrl) \<noteq> None" by simp
    from try_feed_settled[OF this, of k]
    obtain r' k' where "try_feed w k feedUrl = Some (r', k')" by blast
    then show ?thesis
      using Cons.IH[OF later] by (cases r') simp_all
  qed
qed

lemma mset_place: "mset (place comparefn x ys) = add_mset x (mset ys)"
  by (induction ys) simp_all

lemma mset_stable_sort: "mset (stable_sort comparefn xs) = mset xs"
  by (induction xs) (simp_all add: mset_place)


lemma array_sort_Nil: "array_sort engine comparefn [] = []"
  by (simp add: array_sort_def consistent_def)






lemma fetched_two: "httpsRequest (net sample_world ''https://two.example/rss'') =
    Some (Inl (HttpError 500 ''Internal Server Error''))"
  by code_simp


lemma fetched_five:
  "httpsRequest (net sample_world ''https://five.example/rss'') = Some (Inr body_five)"
  by code_simp




lemma parsed_five: "xml_parse sample_world body_five = Inl (ParseError ''Comment is not closed.'')"
  by code_simp







section \<open>The order of the aggregated feed\<close>

lemma set_place: "set (place comparefn x ys) = insert x (set ys)"
  using mset_place[of comparefn x ys] by (metis set_mset_add_mset_insert set_mset_mset)

lemma set_stable_sort: "set (stable_sort comparefn xs) = set xs"
  using mset_stable_sort[of comparefn xs] by (metis set_mset_mset)

lemma time_ge_Some: "time_ge (Some m) (Some n) = (n \<le> m)"
  by (simp add: time_ge_def)

lemma newest_first_Some:
  "dt (pubDate a) = Some m \<Longrightarrow> dt (pubDate b) = Some n \<Longrightarrow>
     newest_first dt a b = Some (n - m)"
  by (simp add: newest_first_def date_minus_def)

lemma sort_compare_newest_first:
  "dt (pubDate a) = Some m \<Longrightarrow> dt (pubDate b) = Some n \<Longrightarrow>
     sort_compare (newest_first dt) a b = n - m"
  by (simp add: sort_compare_def newest_first_Some)

text \<open>With valid dates throughout, the comparator of line 81 is consistent.\<close>

lemma consistent_newest_first:
  assumes "\<forall>n \<in> set xs. dt (pubDate n) \<noteq> None"
  shows "consistent (newest_first dt) xs"
proof -
  have "consistent_at (newest_first dt) a b c"
    if mem: "a \<in> set xs" "b \<in> set xs" "c \<in> set xs" for a b c
  proof -
    obtain i where i: "dt (pubDate a) = Some i" using assms mem(1) by auto
    obtain j where j: "dt (pubDate b) = Some j" using assms mem(2) by auto
    obtain l where l: "dt (pubDate c) = Some l" using assms mem(3) by auto
    show ?thesis
      unfolding consistent_at_def
      by (simp add: sort_compare_newest_first[where dt = dt, OF i i]
            sort_compare_newest_first[where dt = dt, OF i j]
            sort_compare_newest_first[where dt = dt, OF j i]
            sort_compare_newest_first[where dt = dt, OF j l]
            sort_compare_newest_first[where dt = dt, OF i l]
            newest_first_Some[where dt = dt, OF i j])
  qed
  then show ?thesis
    by (simp add: consistent_def list_all_iff)
qed

lemma place_keeps_order:
  assumes "\<forall>n \<in> set (x # ys). dt (pubDate n) \<noteq> None"
    and "sorted_wrt (\<lambda>a b. time_ge (dt (pubDate a)) (dt (pubDate b))) ys"
  shows "sorted_wrt (\<lambda>a b. time_ge (dt (pubDate a)) (dt (pubDate b)))
           (place (newest_first dt) x ys)"
  using assms
proof (induction ys)
  case Nil
  show ?case by simp
next
  case (Cons y ys)
  obtain m where m: "dt (pubDate x) = Some m" using Cons.prems(1) by auto
  obtain k where k: "dt (pubDate y) = Some k" using Cons.prems(1) by auto
  have cmp: "sort_compare (newest_first dt) x y = k - m"
    by (rule sort_compare_newest_first[where dt = dt, OF m k])
  have below_y: "\<forall>z \<in> set ys. time_ge (dt (pubDate y)) (dt (pubDate z))"
    using Cons.prems(2) by simp
  have tail: "sorted_wrt (\<lambda>a b. time_ge (dt (pubDate a)) (dt (pubDate b))) ys"
    using Cons.prems(2) by simp
  show ?case
  proof (cases "k \<le> m")
    case True
    have "\<forall>z \<in> set ys. time_ge (dt (pubDate x)) (dt (pubDate z))"
    proof
      fix z assume z: "z \<in> set ys"
      then obtain j where j: "dt (pubDate z) = Some j" using Cons.prems(1) by auto
      from below_y z have "time_ge (dt (pubDate y)) (dt (pubDate z))" by blast
      then have "j \<le> k" by (simp add: j k time_ge_Some)
      with True show "time_ge (dt (pubDate x)) (dt (pubDate z))"
        by (simp add: j m time_ge_Some)
    qed
    with True Cons.prems(2) show ?thesis
      by (simp add: cmp m k time_ge_Some)
  next
    case False
    have "\<forall>n \<in> set (x # ys). dt (pubDate n) \<noteq> None" using Cons.prems(1) by simp
    then have "sorted_wrt (\<lambda>a b. time_ge (dt (pubDate a)) (dt (pubDate b)))
                 (place (newest_first dt) x ys)"
      using tail by (rule Cons.IH)
    moreover have "time_ge (dt (pubDate y)) (dt (pubDate x))"
      using False by (simp add: m k time_ge_Some)
    ultimately show ?thesis
      using False below_y by (simp add: cmp set_place)
  qed
qed

lemma stable_sort_newest_first:
  "\<forall>n \<in> set xs. dt (pubDate n) \<noteq> None \<Longrightarrow>
     sorted_wrt (\<lambda>a b. time_ge (dt (pubDate a)) (dt (pubDate b)))
       (stable_sort (newest_first dt) xs)"
proof (induction xs)
  case Nil
  show ?case by simp
next
  case (Cons x xs)
  have "sorted_wrt (\<lambda>a b. time_ge (dt (pubDate a)) (dt (pubDate b)))
          (stable_sort (newest_first dt) xs)"
    using Cons by simp
  moreover have "\<forall>n \<in> set (x # stable_sort (newest_first dt) xs). dt (pubDate n) \<noteq> None"
    using Cons.prems by (simp add: set_stable_sort)
  ultimately show ?case
    using place_keeps_order by simp
qed

text \<open>Items of one time value keep their order.\<close>

lemma filter_place:
  assumes "\<forall>n \<in> set (x # ys). dt (pubDate n) \<noteq> None"
  shows "filter (\<lambda>n. dt (pubDate n) = t) (place (newest_first dt) x ys) =
         (if dt (pubDate x) = t then x # filter (\<lambda>n. dt (pubDate n) = t) ys
          else filter (\<lambda>n. dt (pubDate n) = t) ys)"
  using assms
proof (induction ys)
  case Nil
  show ?case by simp
next
  case (Cons y ys)
  obtain m where m: "dt (pubDate x) = Some m" using Cons.prems by auto
  obtain k where k: "dt (pubDate y) = Some k" using Cons.prems by auto
  have cmp: "sort_compare (newest_first dt) x y = k - m"
    by (rule sort_compare_newest_first[where dt = dt, OF m k])
  show ?case
  proof (cases "k \<le> m")
    case True
    then show ?thesis by (simp add: cmp)
  next
    case False
    have "\<forall>n \<in> set (x # ys). dt (pubDate n) \<noteq> None" using Cons.prems by simp
    then have ih: "filter (\<lambda>n. dt (pubDate n) = t) (place (newest_first dt) x ys) =
         (if dt (pubDate x) = t then x # filter (\<lambda>n. dt (pubDate n) = t) ys
          else filter (\<lambda>n. dt (pubDate n) = t) ys)"
      by (rule Cons.IH)
    from False have "dt (pubDate y) \<noteq> dt (pubDate x)" by (simp add: m k)
    with False ih show ?thesis by (auto simp: cmp)
  qed
qed

lemma filter_stable_sort:
  "\<forall>n \<in> set xs. dt (pubDate n) \<noteq> None \<Longrightarrow>
     filter (\<lambda>n. dt (pubDate n) = t) (stable_sort (newest_first dt) xs) =
     filter (\<lambda>n. dt (pubDate n) = t) xs"
proof (induction xs)
  case Nil
  show ?case by simp
next
  case (Cons x xs)
  have "\<forall>n \<in> set (x # stable_sort (newest_first dt) xs). dt (pubDate n) \<noteq> None"
    using Cons.prems by (simp add: set_stable_sort)
  from filter_place[OF this, of t] Cons show ?case by simp
qed

text \<open>A list in descending order of its (defined) time values is fixed by their multiset.\<close>

lemma descending_times_unique:
  assumes xs: "\<forall>n \<in> set (xs :: news_item list). dt (pubDate n) \<noteq> None"
    and sx: "sorted_wrt (\<lambda>a b. time_ge (dt (pubDate a)) (dt (pubDate b))) xs"
    and sy: "sorted_wrt (\<lambda>a b. time_ge (dt (pubDate a)) (dt (pubDate b))) ys"
    and m: "mset ys = mset xs"
  shows "map (\<lambda>n. dt (pubDate n)) ys = map (\<lambda>n. dt (pubDate n)) xs"
proof -
  have ys: "\<forall>n \<in> set ys. dt (pubDate n) \<noteq> None"
    using xs m by (metis set_mset_mset)
  have desc: "sorted (rev (map (\<lambda>n. the (dt (pubDate n))) zs))"
    if "\<forall>n \<in> set zs. dt (pubDate n) \<noteq> None"
      and "sorted_wrt (\<lambda>a b. time_ge (dt (pubDate a)) (dt (pubDate b))) zs"
    for zs :: "news_item list"
  proof -
    have "sorted_wrt (\<lambda>a b. the (dt (pubDate b)) \<le> the (dt (pubDate a))) zs"
      using that(2)
    proof (rule sorted_wrt_mono_rel[rotated])
      fix a b assume "a \<in> set zs" "b \<in> set zs" "time_ge (dt (pubDate a)) (dt (pubDate b))"
      then show "the (dt (pubDate b)) \<le> the (dt (pubDate a))"
        using that(1) by (auto simp: time_ge_def split: option.splits)
    qed
    then show ?thesis
      by (simp add: sorted_wrt_rev sorted_wrt_map)
  qed
  have "mset (rev (map (\<lambda>n. the (dt (pubDate n))) ys)) =
        mset (rev (map (\<lambda>n. the (dt (pubDate n))) xs))"
    using m by simp
  then have "rev (map (\<lambda>n. the (dt (pubDate n))) ys) = rev (map (\<lambda>n. the (dt (pubDate n))) xs)"
    using desc[OF xs sx] desc[OF ys sy]
    by (metis properties_for_sort)
  then have eq: "map (\<lambda>n. the (dt (pubDate n))) ys = map (\<lambda>n. the (dt (pubDate n))) xs"
    by simp
  have "map (\<lambda>n. dt (pubDate n)) zs = map Some (map (\<lambda>n. the (dt (pubDate n))) zs)"
    if "\<forall>n \<in> set zs. dt (pubDate n) \<noteq> None" for zs :: "news_item list"
    using that by (induction zs) auto
  from this[OF xs] this[OF ys] eq show ?thesis by simp
qed

text \<open>What the sort returns when every date is valid.\<close>

lemma fetch_sorted:
  assumes l: "feed_loop w 0 (rssFeeds cfg) [] = Some (allItems, k)"
    and p: "\<forall>n \<in> set allItems. timestamp w n \<noteq> None"
  shows "fetchRSSFeeds w cfg = Some (stable_sort (newest_first (date_time w)) allItems)"
proof -
  have "consistent (newest_first (date_time w)) allItems"
    using p by (intro consistent_newest_first) (simp add: timestamp_def)
  then show ?thesis
    using l by (simp add: fetchRSSFeeds_def array_sort_def)
qed

text \<open>A node with a date of its own is normalized the same way at any time.\<close>

lemma normalize_without_clock:
  assumes "\<not> reads_clock node"
  shows "normalize now node = normalize later node"
proof (cases "nullish node")
  case True
  then show ?thesis by (simp add: normalize_def get_prop_def)
next
  case False
  with assms have "truthy (lookup_prop node ''pubDate'') \<or> truthy (lookup_prop node ''published'')"
    by (simp add: reads_clock_def)
  then have "js_or (lookup_prop node ''pubDate'') (js_or (lookup_prop node ''published'') (JStr now)) =
             js_or (lookup_prop node ''pubDate'') (js_or (lookup_prop node ''published'') (JStr later))"
    by (auto simp: js_or_def)
  then show ?thesis
    by (simp add: normalize_def Let_def split: sum.split)
qed

lemma normalized_from_dated:
  assumes "normalized_from clk nodes items"
    and "\<forall>node \<in> set nodes. \<not> reads_clock node"
  shows "items = map (\<lambda>node. projr (normalize [] node)) nodes"
proof -
  have "list_all2 (\<lambda>node n. \<exists>j. normalize (clk j) node = Inr n) nodes items"
    using assms(1) by (simp add: normalized_from_def)
  then show ?thesis
    using assms(2)
  proof (induction rule: list_all2_induct)
    case Nil
    show ?case by simp
  next
    case (Cons node nodes n items)
    then obtain j where "normalize (clk j) node = Inr n" by blast
    moreover have "\<not> reads_clock node" using Cons.prems by simp
    ultimately have "normalize [] node = Inr n"
      using normalize_without_clock[of node "[]" "clk j"] by simp
    with Cons show ?case by simp
  qed
qed

lemma mset_collected:
  "mset feeds' = mset feeds \<Longrightarrow>
     mset (concat (map f feeds')) = mset (concat (map f feeds))"
proof -
  assume m: "mset feeds' = mset feeds"
  have "mset (concat (map f zs)) = (\<Sum>u \<in># mset zs. mset (f u))" for zs :: "'a list"
    by (induction zs) simp_all
  with m show ?thesis by simp
qed

lemma feed_loop_settled:
  assumes "feed_loop w k feeds allItems = Some r"
  shows "\<forall>u \<in> set feeds. httpsRequest (net w u) \<noteq> None"
proof
  fix u assume u: "u \<in> set feeds"
  show "httpsRequest (net w u) \<noteq> None"
  proof
    assume "httpsRequest (net w u) = None"
    with u have "\<exists>u \<in> set feeds. httpsRequest (net w u) = None" by blast
    then have "feed_loop w k feeds allItems = None" by (rule feed_loop_pending)
    with assms show False by simp
  qed
qed

text \<open>
  Claim C5, amended. When the loop has ended and the publication date of every collected
  item parses to a valid date, \<^verbatim>\<open>fetchRSSFeeds\<close> returns the collected items with each
  item at least as new as the one after it, and items of one time value in the order in
  which they were collected. When in addition every node that got through carries a date
  of its own, so that none takes the clock reading of line 67, the sequence of time
  values in the output is the same for every order in which the same feeds are
  processed. Nothing is said about an output that holds an item whose date does not
  parse.
\<close>

theorem feed_sorted_when_dates_parse:
  "(feed_loop w 0 (rssFeeds cfg) [] = Some (allItems, k) \<and>
    (\<forall>n \<in> set allItems. timestamp w n \<noteq> None) \<longrightarrow>
      (\<exists>out. fetchRSSFeeds w cfg = Some out \<and> newest_to_oldest w out \<and>
         mset out = mset allItems \<and>
         (\<forall>t. filter (\<lambda>n. timestamp w n = t) out = filter (\<lambda>n. timestamp w n = t) allItems))) \<and>
   (feed_loop w 0 (rssFeeds cfg) [] = Some (allItems, k) \<and>
    (\<forall>n \<in> set allItems. timestamp w n \<noteq> None) \<and>
    (\<forall>u \<in> set (rssFeeds cfg). \<forall>node \<in> set (nodes_through w u). \<not> reads_clock node) \<and>
    mset (rssFeeds cfg') = mset (rssFeeds cfg) \<longrightarrow>
      (\<exists>out out'. fetchRSSFeeds w cfg = Some out \<and> fetchRSSFeeds w cfg' = Some out' \<and>
         map (timestamp w) out' = map (timestamp w) out))"
proof (intro conjI impI)
  assume a: "feed_loop w 0 (rssFeeds cfg) [] = Some (allItems, k) \<and>
    (\<forall>n \<in> set allItems. timestamp w n \<noteq> None)"
  let ?out = "stable_sort (newest_first (date_time w)) allItems"
  have p: "\<forall>n \<in> set allItems. date_time w (pubDate n) \<noteq> None"
    using a by (simp add: timestamp_def)
  have "fetchRSSFeeds w cfg = Some ?out"
    using a fetch_sorted by blast
  moreover have "newest_to_oldest w ?out"
    unfolding newest_to_oldest_def timestamp_def
    using stable_sort_newest_first[OF p] by (rule successively_if_sorted_wrt)
  moreover have "mset ?out = mset allItems"
    by (rule mset_stable_sort)
  moreover have "\<forall>t. filter (\<lambda>n. timestamp w n = t) ?out =
                     filter (\<lambda>n. timestamp w n = t) allItems"
    unfolding timestamp_def using filter_stable_sort[OF p] by blast
  ultimately show "\<exists>out. fetchRSSFeeds w cfg = Some out \<and> newest_to_oldest w out \<and>
         mset out = mset allItems \<and>
         (\<forall>t. filter (\<lambda>n. timestamp w n = t) out = filter (\<lambda>n. timestamp w n = t) allItems)"
    by blast
next
  assume a: "feed_loop w 0 (rssFeeds cfg) [] = Some (allItems, k) \<and>
    (\<forall>n \<in> set allItems. timestamp w n \<noteq> None) \<and>
    (\<forall>u \<in> set (rssFeeds cfg). \<forall>node \<in> set (nodes_through w u). \<not> reads_clock node) \<and>
    mset (rssFeeds cfg') = mset (rssFeeds cfg)"
  let ?g = "\<lambda>node. projr (normalize [] node)"
  let ?R = "\<lambda>a b. time_ge (date_time w (pubDate a)) (date_time w (pubDate b))"
  have same_set: "set (rssFeeds cfg') = set (rssFeeds cfg)"
    using a by (metis set_mset_mset)
  have settled: "\<forall>u \<in> set (rssFeeds cfg). httpsRequest (net w u) \<noteq> None"
    using a feed_loop_settled by blast
  then have settled': "\<forall>u \<in> set (rssFeeds cfg'). httpsRequest (net w u) \<noteq> None"
    using same_set by simp
  have dated: "\<forall>node \<in> set (concat (map (nodes_through w) (rssFeeds cfg))). \<not> reads_clock node"
    using a by auto
  have dated': "\<forall>node \<in> set (concat (map (nodes_through w) (rssFeeds cfg'))). \<not> reads_clock node"
    using a same_set by auto
  obtain items j where "feed_loop w 0 (rssFeeds cfg) [] = Some ([] @ items, j)"
    and "normalized_from (clock w) (concat (map (nodes_through w) (rssFeeds cfg))) items"
    using feed_loop_collects[OF settled] by blast
  then have all: "allItems = map ?g (concat (map (nodes_through w) (rssFeeds cfg)))"
    using a normalized_from_dated[OF _ dated] by simp
  obtain allItems' j' where l': "feed_loop w 0 (rssFeeds cfg') [] = Some ([] @ allItems', j')"
    and "normalized_from (clock w) (concat (map (nodes_through w) (rssFeeds cfg'))) allItems'"
    using feed_loop_collects[OF settled'] by blast
  then have all': "allItems' = map ?g (concat (map (nodes_through w) (rssFeeds cfg')))"
    using normalized_from_dated[OF _ dated'] by simp
  have "mset (concat (map (nodes_through w) (rssFeeds cfg'))) =
        mset (concat (map (nodes_through w) (rssFeeds cfg)))"
    using a mset_collected by blast
  then have m: "mset allItems' = mset allItems"
    unfolding all all' by (metis mset_map)
  have p: "\<forall>n \<in> set allItems. date_time w (pubDate n) \<noteq> None"
    using a by (simp add: timestamp_def)
  have p': "\<forall>n \<in> set allItems'. date_time w (pubDate n) \<noteq> None"
    using p m by (metis set_mset_mset)
  let ?out = "stable_sort (newest_first (date_time w)) allItems"
  let ?out' = "stable_sort (newest_first (date_time w)) allItems'"
  have f: "fetchRSSFeeds w cfg = Some ?out"
    using a fetch_sorted by blast
  have f': "fetchRSSFeeds w cfg' = Some ?out'"
    using l' p' fetch_sorted[of w cfg' allItems' j'] by (simp add: timestamp_def)
  have "map (\<lambda>n. date_time w (pubDate n)) ?out' = map (\<lambda>n. date_time w (pubDate n)) ?out"
  proof (rule descending_times_unique)
    show "\<forall>n \<in> set ?out. date_time w (pubDate n) \<noteq> None"
      using p by (simp add: set_stable_sort)
    show "sorted_wrt ?R ?out" using p by (rule stable_sort_newest_first)
    show "sorted_wrt ?R ?out'" using p' by (rule stable_sort_newest_first)
    show "mset ?out' = mset ?out" using m by (simp add: mset_stable_sort)
  qed
  then have "map (timestamp w) ?out' = map (timestamp w) ?out"
    by (simp add: timestamp_def[abs_def])
  with f f' show "\<exists>out out'. fetchRSSFeeds w cfg = Some out \<and> fetchRSSFeeds w cfg' = Some out' \<and>
         map (timestamp w) out' = map (timestamp w) out"
    by blast
qed

lemma loop_one_two_three:
  "feed_loop sample_world 0
     [''https://one.example/rss'', ''https://two.example/rss'', ''https://three.example/atom'']
     [] =
   Some ([item_of ''A'' ''1970-01-01T00:00:01.000Z'', item_of ''B'' ''1970-01-01T00:00:03.000Z'',
          item_of ''C'' ''1970-01-01T00:00:02.000Z''], 0)"
  by code_simp

lemma nodes_through_three:
  "nodes_through sample_world ''https://three.example/atom'' =
     [JObj [(''title'', JStr ''C''), (''published'', JStr ''1970-01-01T00:00:02.000Z'')]]"
  by code_simp

lemma nodes_through_two: "nodes_through sample_world ''https://two.example/rss'' = []"
  by code_simp

lemma nodes_through_one:
  "nodes_through sample_world ''https://one.example/rss'' =
     [JObj [(''title'', JStr ''A''), (''pubDate'', JStr ''1970-01-01T00:00:01.000Z'')],
      JObj [(''title'', JStr ''B''), (''pubDate'', JStr ''1970-01-01T00:00:03.000Z'')]]"
  by code_simp

theorem feed_sorted_when_dates_parse_witness:
  "fetchRSSFeeds sample_world
     \<lparr> rssFeeds = [''https://one.example/rss'', ''https://two.example/rss'',
                   ''https://three.example/atom''] \<rparr> =
     Some [item_of ''B'' ''1970-01-01T00:00:03.000Z'', item_of ''C'' ''1970-01-01T00:00:02.000Z'',
           item_of ''A'' ''1970-01-01T00:00:01.000Z''] \<and>
   newest_to_oldest sample_world
     [item_of ''B'' ''1970-01-01T00:00:03.000Z'', item_of ''C'' ''1970-01-01T00:00:02.000Z'',
      item_of ''A'' ''1970-01-01T00:00:01.000Z''] \<and>
   map_option (map (timestamp sample_world))
     (fetchRSSFeeds sample_world
        \<lparr> rssFeeds = [''https://three.example/atom'', ''https://two.example/rss'',
                      ''https://one.example/rss''] \<rparr>) =
   Some [Some 3000, Some 2000, Some 1000]"
proof -
  have out: "fetchRSSFeeds sample_world
     \<lparr> rssFeeds = [''https://one.example/rss'', ''https://two.example/rss'',
                   ''https://three.example/atom''] \<rparr> =
     Some [item_of ''B'' ''1970-01-01T00:00:03.000Z'', item_of ''C'' ''1970-01-01T00:00:02.000Z'',
           item_of ''A'' ''1970-01-01T00:00:01.000Z'']"
    by code_simp
  have ts: "map (timestamp sample_world)
     [item_of ''B'' ''1970-01-01T00:00:03.000Z'', item_of ''C'' ''1970-01-01T00:00:02.000Z'',
      item_of ''A'' ''1970-01-01T00:00:01.000Z''] = [Some 3000, Some 2000, Some 1000]"
    by code_simp
  have parse: "\<forall>n \<in> set [item_of ''A'' ''1970-01-01T00:00:01.000Z'',
      item_of ''B'' ''1970-01-01T00:00:03.000Z'', item_of ''C'' ''1970-01-01T00:00:02.000Z''].
      timestamp sample_world n \<noteq> None"
    by (simp add: timestamp_def item_of_def sample_world_def sample_date_def)
  have dated: "\<forall>u \<in> set (rssFeeds \<lparr> rssFeeds = [''https://one.example/rss'',
        ''https://two.example/rss'', ''https://three.example/atom''] \<rparr>).
      \<forall>node \<in> set (nodes_through sample_world u). \<not> reads_clock node"
    by (simp add: nodes_through_one nodes_through_two nodes_through_three reads_clock_def)
  have perm: "mset (rssFeeds \<lparr> rssFeeds = [''https://three.example/atom'',
                      ''https://two.example/rss'', ''https://one.example/rss''] \<rparr>) =
              mset (rssFeeds \<lparr> rssFeeds = [''https://one.example/rss'',
                      ''https://two.example/rss'', ''https://three.example/atom''] \<rparr>)"
    by simp
  have loop: "feed_loop sample_world 0
       (rssFeeds \<lparr> rssFeeds = [''https://one.example/rss'', ''https://two.example/rss'',
                   ''https://three.example/atom''] \<rparr>) [] =
     Some ([item_of ''A'' ''1970-01-01T00:00:01.000Z'', item_of ''B'' ''1970-01-01T00:00:03.000Z'',
          item_of ''C'' ''1970-01-01T00:00:02.000Z''], 0)"
    using loop_one_two_three by simp
  note t = feed_sorted_when_dates_parse[where w = sample_world
      and cfg = "\<lparr> rssFeeds = [''https://one.example/rss'', ''https://two.example/rss'',
                   ''https://three.example/atom''] \<rparr>"
      and cfg' = "\<lparr> rssFeeds = [''https://three.example/atom'', ''https://two.example/rss'',
                      ''https://one.example/rss''] \<rparr>"
      and allItems = "[item_of ''A'' ''1970-01-01T00:00:01.000Z'',
          item_of ''B'' ''1970-01-01T00:00:03.000Z'', item_of ''C'' ''1970-01-01T00:00:02.000Z'']"
      and k = 0]
  from t loop parse have
    "\<exists>o1. fetchRSSFeeds sample_world
       \<lparr> rssFeeds = [''https://one.example/rss'', ''https://two.example/rss'',
                   ''https://three.example/atom''] \<rparr> = Some o1 \<and> newest_to_oldest sample_world o1"
    by blast
  then have sorted: "newest_to_oldest sample_world
     [item_of ''B'' ''1970-01-01T00:00:03.000Z'', item_of ''C'' ''1970-01-01T00:00:02.000Z'',
      item_of ''A'' ''1970-01-01T00:00:01.000Z'']"
    using out by simp
  from t loop parse dated perm have
    "\<exists>o1 o2. fetchRSSFeeds sample_world
       \<lparr> rssFeeds = [''https://one.example/rss'', ''https://two.example/rss'',
                   ''https://three.example/atom''] \<rparr> = Some o1 \<and>
      fetchRSSFeeds sample_world
       \<lparr> rssFeeds = [''https://three.example/atom'', ''https://two.example/rss'',
                      ''https://one.example/rss''] \<rparr> = Some o2 \<and>
      map (timestamp sample_world) o2 = map (timestamp sample_world) o1"
    by blast
  then have "map_option (map (timestamp sample_world))
     (fetchRSSFeeds sample_world
        \<lparr> rssFeeds = [''https://three.example/atom'', ''https://two.example/rss'',
                      ''https://one.example/rss''] \<rparr>) =
     Some [Some 3000, Some 2000, Some 1000]"
    using out ts by auto
  with out sorted show ?thesis by simp
qed

text \<open>
  Claim C5 as stated fails. Feed four holds an item dated \<^verbatim>\<open>soon\<close>, whose time value
  is \<^verbatim>\<open>NaN\<close>, and an item with a valid date. No comparison with \<^verbatim>\<open>NaN\<close> is true, so
  the two items are in descending order neither as the program returns them nor the
  other way round.
\<close>

theorem unparseable_date_breaks_order:
  "feed_loop sample_world 0 [''https://four.example/rss''] [] =
     Some ([item_of ''D'' ''soon'', item_of ''E'' ''1970-01-01T00:00:01.000Z''], 0) \<and>
   fetchRSSFeeds sample_world \<lparr> rssFeeds = [''https://four.example/rss''] \<rparr> =
     Some [item_of ''D'' ''soon'', item_of ''E'' ''1970-01-01T00:00:01.000Z''] \<and>
   \<not> newest_to_oldest sample_world
       [item_of ''D'' ''soon'', item_of ''E'' ''1970-01-01T00:00:01.000Z''] \<and>
   \<not> newest_to_oldest sample_world
       [item_of ''E'' ''1970-01-01T00:00:01.000Z'', item_of ''D'' ''soon'']"
  by code_simp

section \<open>The orchestrator stops on an empty feed\<close>

text \<open>Whether the \<^verbatim>\<open>try\<close> block of a feed throws does not depend on the clock.\<close>

lemma try_feed_throws_always:
  assumes "try_feed w k feedUrl = Some (Inl e, k')"
  shows "\<exists>e' k''. try_feed w j feedUrl = Some (Inl e', k'')"
proof -
  show ?thesis
  proof (cases "httpsRequest (net w feedUrl)")
    case None
    with assms show ?thesis by (simp add: try_feed_def)
  next
    case (Some r)
    show ?thesis
    proof (cases r)
      case (Inl e1)
      with Some show ?thesis by (simp add: try_feed_def)
    next
      case (Inr xmlData)
      note fetched = this
      show ?thesis
      proof (cases "xml_parse w xmlData")
        case (Inl e1)
        with Some fetched show ?thesis by (simp add: try_feed_def)
      next
        case (Inr parsed)
        note parsed = this
        show ?thesis
        proof (cases "select_items parsed")
          case (Inl e1)
          with Some fetched parsed show ?thesis by (simp add: try_feed_def)
        next
          case (Inr nodes)
          have t: "try_feed w i feedUrl = Some (map_normalize (clock w) i nodes)" for i
            using Some fetched parsed Inr by (simp add: try_feed_def)
          have "\<not> list_all normalizes nodes"
          proof
            assume "list_all normalizes nodes"
            then obtain ns k1 where "map_normalize (clock w) k nodes = (Inr ns, k1)"
              using map_normalize_all by blast
            with t[of k] assms show False by simp
          qed
          then obtain e1 k1 where "map_normalize (clock w) j nodes = (Inl e1, k1)"
            using map_normalize_some_throws by blast
          with t[of j] show ?thesis by simp
        qed
      qed
    qed
  qed
qed

text \<open>
  Claim C8. Whenever \<^verbatim>\<open>fetchRSSFeeds\<close> returns no item, \<^verbatim>\<open>main\<close> returns without a
  call to \<^verbatim>\<open>processWithAI\<close> or \<^verbatim>\<open>sendToTelegram\<close> and without
  \<^verbatim>\<open>process.exit(1)\<close>. That is the case when every configured feed fails, and in
  particular when no feed is configured.
\<close>

theorem main_stops_on_empty:
  "(fetchRSSFeeds w cfg = Some [] \<longrightarrow> main w cfg = ([], Returned)) \<and>
   ((\<forall>feedUrl \<in> set (rssFeeds cfg'). \<exists>e k k'. try_feed w k feedUrl = Some (Inl e, k')) \<longrightarrow>
      fetchRSSFeeds w cfg' = Some [] \<and> main w cfg' = ([], Returned)) \<and>
   fetchRSSFeeds w \<lparr> rssFeeds = [] \<rparr> = Some [] \<and>
   main w \<lparr> rssFeeds = [] \<rparr> = ([], Returned)"
proof -
  have stop: "main w c = ([], Returned)" if "fetchRSSFeeds w c = Some []" for c
    using that by (simp add: main_def)
  have none: "\<exists>k'. feed_loop w k feeds allItems = Some (allItems, k')"
    if "\<forall>feedUrl \<in> set feeds. \<exists>e k k'. try_feed w k feedUrl = Some (Inl e, k')"
    for feeds k allItems
    using that
  proof (induction feeds arbitrary: k)
    case Nil
    show ?case by simp
  next
    case (Cons feedUrl feeds)
    then obtain e0 k0 k0' where "try_feed w k0 feedUrl = Some (Inl e0, k0')"
      by (meson list.set_intros(1))
    then obtain e k1 where t: "try_feed w k feedUrl = Some (Inl e, k1)"
      using try_feed_throws_always by blast
    have "\<exists>k'. feed_loop w k1 feeds allItems = Some (allItems, k')"
      using Cons by simp
    with t show ?case by simp
  qed
  have empty: "fetchRSSFeeds w c = Some []"
    if fails: "\<forall>feedUrl \<in> set (rssFeeds c). \<exists>e k k'. try_feed w k feedUrl = Some (Inl e, k')"
    for c
  proof -
    obtain k' where "feed_loop w 0 (rssFeeds c) [] = Some ([], k')"
      using none[OF fails] by blast
    then show ?thesis by (simp add: fetchRSSFeeds_def array_sort_Nil)
  qed
  have zero: "fetchRSSFeeds w \<lparr> rssFeeds = [] \<rparr> = Some []"
    by (rule empty) simp
  show ?thesis
    using stop empty zero by blast
qed

theorem main_stops_on_empty_witness:
  "fetchRSSFeeds sample_world
     \<lparr> rssFeeds = [''https://two.example/rss'', ''https://five.example/rss'',
                   ''https://nowhere.example/''] \<rparr> = Some [] \<and>
   main sample_world
     \<lparr> rssFeeds = [''https://two.example/rss'', ''https://five.example/rss'',
                   ''https://nowhere.example/''] \<rparr> = ([], Returned)"
proof -
  have two: "try_feed sample_world k ''https://two.example/rss'' =
               Some (Inl (HttpError 500 ''Internal Server Error''), k)" for k
    using fetched_two by (simp add: try_feed_def)
  have five: "try_feed sample_world k ''https://five.example/rss'' =
               Some (Inl (ParseError ''Comment is not closed.''), k)" for k
    using fetched_five parsed_five by (simp add: try_feed_def)
  have "httpsRequest (net sample_world ''https://nowhere.example/'') =
               Some (Inl (TransportError ''getaddrinfo ENOTFOUND''))"
    by code_simp
  then have nowhere: "try_feed sample_world k ''https://nowhere.example/'' =
               Some (Inl (TransportError ''getaddrinfo ENOTFOUND''), k)" for k
    by (simp add: try_feed_def)
  have fail: "\<forall>feedUrl \<in> set (rssFeeds
     \<lparr> rssFeeds = [''https://two.example/rss'', ''https://five.example/rss'',
                   ''https://nowhere.example/''] \<rparr>).
       \<exists>e k k'. try_feed sample_world k feedUrl = Some (Inl e, k')"
    using two five nowhere by simp
  show ?thesis
    using main_stops_on_empty[of sample_world
       "\<lparr> rssFeeds = [''https://two.example/rss'', ''https://five.example/rss'',
                   ''https://nowhere.example/''] \<rparr>"
       "\<lparr> rssFeeds = [''https://two.example/rss'', ''https://five.example/rss'',
                   ''https://nowhere.example/''] \<rparr>"] fail
    by blast
qed

section \<open>How many items a document yields\<close>

lemma map_normalize_length:
  "map_normalize clk k nodes = (Inr ns, k') \<Longrightarrow> length ns = length nodes"
proof (induction nodes arbitrary: k ns)
  case Nil
  then show ?case by simp
next
  case (Cons node nodes)
  then show ?case
    by (auto split: sum.splits prod.splits)
qed

text \<open>
  Claim C9, amended. A parsed document in which neither \<^verbatim>\<open>rss.channel.item\<close> nor
  \<^verbatim>\<open>feed.entry\<close> is truthy yields no items and no error. A truthy
  \<^verbatim>\<open>rss.channel.item\<close> that is not an array is taken as a sequence of one node, and so
  is a truthy \<^verbatim>\<open>feed.entry\<close> when \<^verbatim>\<open>rss.channel.item\<close> is not truthy. For a document
  whose \<^verbatim>\<open>rss.channel.item\<close> is an array of N nodes, or a single truthy node (N = 1),
  the normalizer output has exactly N items when no node makes the normalizer throw;
  when one node does, the document yields an error and no output sequence.
\<close>

theorem item_count:
  "(\<not> nullish bare \<and> \<not> truthy (rss_item bare) \<and> \<not> truthy (feed_entry bare) \<longrightarrow>
      normalized_items clk k bare = (Inr [], k)) \<and>
   (truthy (rss_item single) \<and> \<not> isArray (rss_item single) \<longrightarrow>
      select_items single = Inr [rss_item single]) \<and>
   (\<not> nullish atom \<and> \<not> truthy (rss_item atom) \<and>
    truthy (feed_entry atom) \<and> \<not> isArray (feed_entry atom) \<longrightarrow>
      select_items atom = Inr [feed_entry atom]) \<and>
   (truthy (rss_item many) \<and> list_all normalizes (as_array (rss_item many)) \<longrightarrow>
      (\<exists>ns. fst (normalized_items clk k many) = Inr ns \<and>
            length ns = length (as_array (rss_item many)))) \<and>
   (truthy (rss_item broken) \<and> \<not> list_all normalizes (as_array (rss_item broken)) \<longrightarrow>
      (\<exists>e. fst (normalized_items clk k broken) = Inl e))"
proof (intro conjI impI)
  assume "\<not> nullish bare \<and> \<not> truthy (rss_item bare) \<and> \<not> truthy (feed_entry bare)"
  then show "normalized_items clk k bare = (Inr [], k)"
    by (simp add: normalized_items_def select_items_def get_prop_def)
next
  assume a: "truthy (rss_item single) \<and> \<not> isArray (rss_item single)"
  then have "as_array (rss_item single) = [rss_item single]"
    by (cases "rss_item single") simp_all
  with a show "select_items single = Inr [rss_item single]"
    by (simp add: select_items_rss)
next
  assume a: "\<not> nullish atom \<and> \<not> truthy (rss_item atom) \<and>
    truthy (feed_entry atom) \<and> \<not> isArray (feed_entry atom)"
  then have "as_array (feed_entry atom) = [feed_entry atom]"
    by (cases "feed_entry atom") simp_all
  with a show "select_items atom = Inr [feed_entry atom]"
    by (simp add: select_items_def get_prop_def)
next
  assume a: "truthy (rss_item many) \<and> list_all normalizes (as_array (rss_item many))"
  then obtain ns k' where ns: "map_normalize clk k (as_array (rss_item many)) = (Inr ns, k')"
    using map_normalize_all by blast
  then have "length ns = length (as_array (rss_item many))"
    by (rule map_normalize_length)
  with a ns show "\<exists>ns. fst (normalized_items clk k many) = Inr ns \<and>
            length ns = length (as_array (rss_item many))"
    by (simp add: normalized_items_def select_items_rss)
next
  assume a: "truthy (rss_item broken) \<and> \<not> list_all normalizes (as_array (rss_item broken))"
  then obtain e k' where "map_normalize clk k (as_array (rss_item broken)) = (Inl e, k')"
    using map_normalize_some_throws by blast
  with a show "\<exists>e. fst (normalized_items clk k broken) = Inl e"
    by (simp add: normalized_items_def select_items_rss)
qed

theorem item_count_witness:
  "normalized_items sample_clock 0 (JObj [(''html'', JObj [(''body'', JStr ''hello'')])]) =
     (Inr [], 0) \<and>
   select_items (JObj [(''rss'', JObj [(''channel'',
       JObj [(''item'', JObj [(''title'', JStr ''A'')])])])]) =
     Inr [JObj [(''title'', JStr ''A'')]] \<and>
   select_items doc_three =
     Inr [JObj [(''title'', JStr ''C''), (''published'', JStr ''1970-01-01T00:00:02.000Z'')]] \<and>
   (\<exists>ns. fst (normalized_items sample_clock 0 doc_one) = Inr ns \<and> length ns = 2) \<and>
   (\<exists>e. fst (normalized_items sample_clock 0 doc_seven) = Inl e)"
proof -
  have d0: "\<not> nullish (JObj [(''html'', JObj [(''body'', JStr ''hello'')])]) \<and>
            \<not> truthy (rss_item (JObj [(''html'', JObj [(''body'', JStr ''hello'')])])) \<and>
            \<not> truthy (feed_entry (JObj [(''html'', JObj [(''body'', JStr ''hello'')])]))"
    by (simp add: rss_item_def feed_entry_def opt_prop_def)
  have d1: "rss_item (JObj [(''rss'', JObj [(''channel'',
       JObj [(''item'', JObj [(''title'', JStr ''A'')])])])]) = JObj [(''title'', JStr ''A'')]"
    by (simp add: rss_item_def opt_prop_def)
  have d2: "\<not> nullish doc_three \<and> \<not> truthy (rss_item doc_three) \<and>
            feed_entry doc_three =
              JObj [(''title'', JStr ''C''), (''published'', JStr ''1970-01-01T00:00:02.000Z'')]"
    by (simp add: doc_three_def rss_item_def feed_entry_def opt_prop_def)
  have dN: "rss_item doc_one =
       JArr [JObj [(''title'', JStr ''A''), (''pubDate'', JStr ''1970-01-01T00:00:01.000Z'')],
             JObj [(''title'', JStr ''B''), (''pubDate'', JStr ''1970-01-01T00:00:03.000Z'')]]"
    by (simp add: doc_one_def rss_item_def opt_prop_def)
  have ok: "list_all normalizes (as_array (rss_item doc_one))"
    by (simp add: dN normalizes_def content_source_def js_or_def)
  have dB: "rss_item doc_seven =
       JArr [JObj [(''title'', JStr ''F''), (''pubDate'', JStr ''1970-01-01T00:00:02.000Z'')],
             JObj [(''title'', JStr ''G''), (''description'', JNum 42)]]"
    by (simp add: doc_seven_def rss_item_def opt_prop_def)
  have bad: "\<not> list_all normalizes (as_array (rss_item doc_seven))"
    by (simp add: dB normalizes_def content_source_def js_or_def)
  note t = item_count[where bare = "JObj [(''html'', JObj [(''body'', JStr ''hello'')])]"
        and single = "JObj [(''rss'', JObj [(''channel'',
                         JObj [(''item'', JObj [(''title'', JStr ''A'')])])])]"
        and atom = doc_three and many = doc_one and broken = doc_seven
        and clk = sample_clock and k = 0]
  show ?thesis
    using t d0 d1 d2 dN ok dB bad
    by (elim conjE impE) (simp_all add: numeral_2_eq_2)
qed

text \<open>
  Claim C9 as stated fails. A single empty item element reaches the program as the empty
  string, which is falsy: the document yields no items instead of one. A document whose
  only item has the description 42 yields no output sequence at all, because the
  normalizer throws.
\<close>

theorem empty_or_numeric_node_miscounted:
  "select_items (JObj [(''rss'', JObj [(''channel'', JObj [(''item'', JStr '''')])])]) = Inr [] \<and>
   fst (normalized_items sample_clock 0
     (JObj [(''rss'', JObj [(''channel'', JObj [(''item'',
        JObj [(''title'', JStr ''A''), (''description'', JNum 42)])])])])) =
     Inl (TypeError ''replace is not a function'')"
  by (simp add: normalized_items_def select_items_def rss_item_def feed_entry_def get_prop_def
        opt_prop_def normalize_def js_or_def snippet_of_def Let_def)

end
